theory Spec2Isabelle
  imports Complex_Main
begin

section \<open>Data model of \<^verbatim>\<open>solver.py\<close>\<close>

text \<open>
  One row of the signups dataframe, with the columns \<^verbatim>\<open>prepare_data\<close> guarantees:
  \<^verbatim>\<open>Name\<close> (str), \<^verbatim>\<open>Skill\<close> (float), \<^verbatim>\<open>Position\<close> (int), \<^verbatim>\<open>Captain\<close> (int) and
  \<^verbatim>\<open>Avoid\<close> (a non-empty string or \<^verbatim>\<open>None\<close>). Floating-point numbers are modelled as
  rationals: products and quotients are exact, NaN and infinities do not exist.
\<close>

record player =
  Name :: string
  Skill :: rat
  Position :: int
  Captain :: int
  Avoid :: "string option"

text \<open>A row of the returned dataframe: the input row plus the new \<^verbatim>\<open>Team\<close> column.\<close>

record assigned = player +
  Team :: int

text \<open>The arguments of \<^verbatim>\<open>build_and_solve\<close>. \<^verbatim>\<open>presets\<close> is a dict iterated in
  insertion order, hence an association list; \<^verbatim>\<open>role_weights\<close> is only read with
  \<^verbatim>\<open>.get\<close>, hence a map.\<close>

record args =
  df :: "player list"
  roles :: "int list"
  role_weights :: "int \<rightharpoonup> rat"
  num_teams :: int
  captain_policy :: string
  captain_hard :: bool
  conflict_weight :: rat
  balance_weight :: rat
  captain_weight :: rat
  presets :: "(string \<times> int) list"
  random_seed :: int

text \<open>
  Variables of the CP-SAT model. OR-Tools identifies a variable by its creation, not by its
  name: every \<^verbatim>\<open>NewBoolVar\<close>/\<^verbatim>\<open>NewIntVar\<close> call returns a fresh variable. A variable
  is therefore named by the statement that creates it and the loop indices of that
  statement: \<open>X p t\<close> is \<^verbatim>\<open>x[(p, t)]\<close>, \<open>S t\<close> is \<^verbatim>\<open>s[t]\<close>, \<open>D t\<close> is \<^verbatim>\<open>d[t]\<close>,
  \<open>Diff t\<close> is \<^verbatim>\<open>diff\<close> of iteration \<open>t\<close>, \<open>Y i t\<close> is \<^verbatim>\<open>var\<close> created for the \<open>i\<close>-th
  entry of \<^verbatim>\<open>avoid_pairs\<close> and team \<open>t\<close>, \<open>C t\<close> is \<^verbatim>\<open>c_t[t]\<close>, \<open>M t\<close> is \<^verbatim>\<open>m_t\<close> and
  \<open>K t\<close> is \<^verbatim>\<open>k_t\<close> of iteration \<open>t\<close>.
\<close>

datatype var = X nat nat | S nat | D nat | Diff nat | Y nat nat | C nat | M nat | K nat

text \<open>A linear expression \<open>\<Sum> coefficient * variable + constant\<close>, and the three
  comparisons the source passes to \<^verbatim>\<open>model.Add\<close>.\<close>

datatype linexpr = Lin "(int \<times> var) list" int

datatype constr = EqC linexpr linexpr | LeC linexpr linexpr | GeC linexpr linexpr

abbreviation V :: "var \<Rightarrow> linexpr" where
  "V x \<equiv> Lin [(1, x)] 0"

abbreviation Const :: "int \<Rightarrow> linexpr" where
  "Const c \<equiv> Lin [] c"

text \<open>The model: the declared variables with their domains \<open>[lb, ub]\<close>, the constraints
  in the order they are added, and the terms of \<^verbatim>\<open>model.Minimize(sum(obj_terms))\<close>, each a
  coefficient times a sum of variables.\<close>

record cp_model =
  variables :: "(var \<times> int \<times> int) list"
  constraints :: "constr list"
  objective :: "(rat \<times> var list) list"

fun eval_lin :: "(var \<Rightarrow> int) \<Rightarrow> linexpr \<Rightarrow> int" where
  "eval_lin v (Lin ts c) = sum_list (map (\<lambda>(k, x). k * v x) ts) + c"

fun holds :: "(var \<Rightarrow> int) \<Rightarrow> constr \<Rightarrow> bool" where
  "holds v (EqC l r) = (eval_lin v l = eval_lin v r)"
| "holds v (LeC l r) = (eval_lin v l \<le> eval_lin v r)"
| "holds v (GeC l r) = (eval_lin v l \<ge> eval_lin v r)"

fun in_domain :: "(var \<Rightarrow> int) \<Rightarrow> var \<times> int \<times> int \<Rightarrow> bool" where
  "in_domain v (x, lb, ub) = (lb \<le> v x \<and> v x \<le> ub)"

definition sat :: "cp_model \<Rightarrow> (var \<Rightarrow> int) \<Rightarrow> bool" where
  "sat m v = (list_all (in_domain v) (variables m) \<and> list_all (holds v) (constraints m))"

definition objective_value :: "cp_model \<Rightarrow> (var \<Rightarrow> int) \<Rightarrow> rat" where
  "objective_value m v =
     sum_list (map (\<lambda>(w, xs). w * of_int (sum_list (map v xs))) (objective m))"

text \<open>The exceptions \<^verbatim>\<open>build_and_solve\<close> can raise.\<close>

datatype value_error =
    SeedNegative
  | PresetPlayerNotFound string
  | PresetTeamOutOfRange string int
  | BadCaptainPolicy

datatype error =
    ValueError value_error
  | ZeroDivisionError
  | RuntimeError string
  | KeyError nat

text \<open>The solver's statuses, its parameters, and the diagnostics dictionary.\<close>

datatype status = UNKNOWN | MODEL_INVALID | FEASIBLE | INFEASIBLE | OPTIMAL

record solver_parameters =
  max_time_in_seconds :: rat
  solver_random_seed :: int
  num_search_workers :: int

record diagnostics =
  diag_status :: string
  diag_team_scores :: "(int \<times> rat) list"
  diag_target_score :: rat
  diag_deviations :: "(int \<times> rat) list"
  diag_captain_counts :: "(int \<times> int) list"
  diag_num_captains :: int
  diag_feasibility_warnings :: "string list"

section \<open>The model builder\<close>

definition players :: "args \<Rightarrow> string list" where
  "players a = map Name (df a)"

definition P :: "args \<Rightarrow> nat" where
  "P a = length (players a)"

text \<open>\<^verbatim>\<open>{n: i for i, n in enumerate(players)}\<close>: a later row with the same name
  overwrites an earlier one.\<close>

definition name_to_idx :: "args \<Rightarrow> string \<rightharpoonup> nat" where
  "name_to_idx a = fold (\<lambda>(i, n) m. m(n \<mapsto> i)) (enumerate 0 (players a)) Map.empty"

text \<open>\<^verbatim>\<open>list(range(num_teams))\<close>: empty when \<^verbatim>\<open>num_teams\<close> is not positive.\<close>

definition team_ids :: "args \<Rightarrow> nat list" where
  "team_ids a = [0..<nat (num_teams a)]"

text \<open>\<^verbatim>\<open>roles = list(sorted(set(roles)))\<close> and \<^verbatim>\<open>R = len(roles)\<close>.\<close>

definition roles_sorted :: "args \<Rightarrow> int list" where
  "roles_sorted a = sort (remdups (roles a))"

definition R :: "args \<Rightarrow> int" where
  "R a = int (length (roles_sorted a))"

definition skill :: "args \<Rightarrow> nat \<Rightarrow> rat" where
  "skill a p = Skill (df a ! p)"

definition pos :: "args \<Rightarrow> nat \<Rightarrow> int" where
  "pos a p = Position (df a ! p)"

definition is_capt :: "args \<Rightarrow> nat \<Rightarrow> int" where
  "is_capt a p = Captain (df a ! p)"

text \<open>\<^verbatim>\<open>role_weights.get(r, 1.0)\<close> for the role of each player.\<close>

definition weight_by_role :: "args \<Rightarrow> nat \<Rightarrow> rat" where
  "weight_by_role a p = (case role_weights a (pos a p) of Some w \<Rightarrow> w | None \<Rightarrow> 1)"

definition weighted_skill :: "args \<Rightarrow> nat \<Rightarrow> rat" where
  "weighted_skill a p = skill a p * weight_by_role a p"

text \<open>The loop over the rows that collects the directed pairs. \<^verbatim>\<open>name_to_idx[a]\<close>
  cannot fail, the name being a key by construction; the model gives that case no pair.\<close>

definition avoid_pair :: "args \<Rightarrow> player \<Rightarrow> (nat \<times> nat) list" where
  "avoid_pair a row =
     (case Avoid row of
        None \<Rightarrow> []
      | Some b \<Rightarrow>
          (case name_to_idx a b of
             None \<Rightarrow> []
           | Some ib \<Rightarrow>
               (case name_to_idx a (Name row) of None \<Rightarrow> [] | Some ia \<Rightarrow> [(ia, ib)])))"

definition avoid_pairs :: "args \<Rightarrow> (nat \<times> nat) list" where
  "avoid_pairs a = concat (map (avoid_pair a) (df a))"

text \<open>Decision variables \<^verbatim>\<open>x\<close>, and the two families of structural constraints.\<close>

definition x_vars :: "args \<Rightarrow> (var \<times> int \<times> int) list" where
  "x_vars a = concat (map (\<lambda>p. map (\<lambda>t. (X p t, 0, 1)) (team_ids a)) [0..<P a])"

definition one_team_constraints :: "args \<Rightarrow> constr list" where
  "one_team_constraints a =
     map (\<lambda>p. EqC (Lin (map (\<lambda>t. (1, X p t)) (team_ids a)) 0) (Const 1)) [0..<P a]"

definition role_constraints :: "args \<Rightarrow> constr list" where
  "role_constraints a =
     concat (map (\<lambda>t. map (\<lambda>r.
        EqC (Lin (map (\<lambda>p. (1, X p t)) (filter (\<lambda>p. pos a p = r) [0..<P a])) 0) (Const 1))
       (roles_sorted a)) (team_ids a))"

text \<open>The loop over the presets: the first bad entry raises; a good entry pins the
  player's indicators.\<close>

fun preset_constraints :: "args \<Rightarrow> (string \<times> int) list \<Rightarrow> error + constr list" where
  "preset_constraints a [] = Inr []"
| "preset_constraints a ((name, team1) # rest) =
     (case name_to_idx a name of
        None \<Rightarrow> Inl (ValueError (PresetPlayerNotFound name))
      | Some p \<Rightarrow>
          if \<not> (1 \<le> team1 \<and> team1 \<le> num_teams a)
          then Inl (ValueError (PresetTeamOutOfRange name (num_teams a)))
          else (case preset_constraints a rest of
                  Inl e \<Rightarrow> Inl e
                | Inr cs \<Rightarrow>
                    Inr (map (\<lambda>tt. EqC (V (X p tt))
                                (Const (if tt = nat (team1 - 1) then 1 else 0)))
                           (team_ids a) @ cs)))"

text \<open>\<^verbatim>\<open>np.round\<close> rounds to the nearest integer, a tie to the even one.\<close>

definition np_round :: "rat \<Rightarrow> int" where
  "np_round q =
     (let f = \<lfloor>q\<rfloor>; r = q - of_int f
      in if r < 1 / 2 then f else if 1 / 2 < r then f + 1 else if even f then f else f + 1)"

definition SCALE :: int where
  "SCALE = 100"

definition scaled_ws :: "args \<Rightarrow> nat \<Rightarrow> int" where
  "scaled_ws a p = np_round (weighted_skill a p * of_int SCALE)"

definition s_vars :: "args \<Rightarrow> (var \<times> int \<times> int) list" where
  "s_vars a = map (\<lambda>t. (S t, 0, 1000000000)) (team_ids a)"

definition score_constraints :: "args \<Rightarrow> constr list" where
  "score_constraints a =
     map (\<lambda>t. EqC (V (S t)) (Lin (map (\<lambda>p. (scaled_ws a p, X p t)) [0..<P a]) 0)) (team_ids a)"

definition total_score :: "args \<Rightarrow> int" where
  "total_score a = sum_list (map (scaled_ws a) [0..<P a])"

text \<open>\<^verbatim>\<open>total_score // num_teams\<close>: floor division, as \<open>div\<close> on \<open>int\<close>; the division by
  zero is raised in \<open>build_model\<close>.\<close>

definition target :: "args \<Rightarrow> int" where
  "target a = total_score a div num_teams a"

definition d_vars :: "args \<Rightarrow> (var \<times> int \<times> int) list" where
  "d_vars a = map (\<lambda>t. (D t, 0, 1000000000)) (team_ids a)"

definition diff_vars :: "args \<Rightarrow> (var \<times> int \<times> int) list" where
  "diff_vars a = map (\<lambda>t. (Diff t, - 1000000000, 1000000000)) (team_ids a)"

definition deviation_constraints :: "args \<Rightarrow> constr list" where
  "deviation_constraints a =
     concat (map (\<lambda>t.
        [EqC (V (Diff t)) (Lin [(1, S t)] (- target a)),
         GeC (V (D t)) (V (Diff t)),
         GeC (V (D t)) (Lin [(- 1, Diff t)] 0)]) (team_ids a))"

text \<open>Conflicts: one fresh boolean per entry of \<^verbatim>\<open>avoid_pairs\<close> and team.\<close>

definition conflict_terms :: "args \<Rightarrow> var list" where
  "conflict_terms a =
     concat (map (\<lambda>i. map (\<lambda>t. Y i t) (team_ids a)) [0..<length (avoid_pairs a)])"

definition y_vars :: "args \<Rightarrow> (var \<times> int \<times> int) list" where
  "y_vars a = map (\<lambda>y. (y, 0, 1)) (conflict_terms a)"

definition conflict_constraints :: "args \<Rightarrow> constr list" where
  "conflict_constraints a =
     concat (map (\<lambda>(i, pa, pb). concat (map (\<lambda>t.
        [LeC (V (Y i t)) (V (X pa t)),
         LeC (V (Y i t)) (V (X pb t)),
         GeC (V (Y i t)) (Lin [(1, X pa t), (1, X pb t)] (- 1))]) (team_ids a)))
       (enumerate 0 (avoid_pairs a)))"

text \<open>Captain counts.\<close>

definition c_vars :: "args \<Rightarrow> (var \<times> int \<times> int) list" where
  "c_vars a = map (\<lambda>t. (C t, 0, R a)) (team_ids a)"

definition captain_count_constraints :: "args \<Rightarrow> constr list" where
  "captain_count_constraints a =
     map (\<lambda>t. EqC (V (C t)) (Lin (map (\<lambda>p. (is_capt a p, X p t)) [0..<P a]) 0)) (team_ids a)"

definition num_captains :: "args \<Rightarrow> int" where
  "num_captains a = sum_list (map (is_capt a) [0..<P a])"

text \<open>The captain policy branch. It yields what the branch adds: the violation variables,
  the constraints, \<^verbatim>\<open>captain_penalty_terms\<close> and \<^verbatim>\<open>feasibility_warnings\<close>.\<close>

record captain_part =
  capt_vars :: "(var \<times> int \<times> int) list"
  capt_constraints :: "constr list"
  captain_penalty_terms :: "var list"
  feasibility_warnings :: "string list"

definition warning_not_enough :: string where
  "warning_not_enough =
     ''Not enough captains for at_least_one hard constraint; downgrading to soft penalty.''"

definition warning_too_many :: string where
  "warning_too_many =
     ''Too many captains for separate hard constraint; downgrading to soft penalty.''"

definition captain_policy_part :: "args \<Rightarrow> captain_part" where
  "captain_policy_part a =
     (if captain_policy a = ''at_least_one'' then
        (let downgrade = (captain_hard a \<and> num_captains a < num_teams a);
             warns = (if downgrade then [warning_not_enough] else []);
             hard = (if downgrade then False else captain_hard a)
         in if hard
            then \<lparr>capt_vars = [],
                  capt_constraints = map (\<lambda>t. GeC (V (C t)) (Const 1)) (team_ids a),
                  captain_penalty_terms = [],
                  feasibility_warnings = warns\<rparr>
            else \<lparr>capt_vars = map (\<lambda>t. (M t, 0, 1)) (team_ids a),
                  capt_constraints =
                    map (\<lambda>t. GeC (V (M t)) (Lin [(- 1, C t)] 1)) (team_ids a),
                  captain_penalty_terms = map M (team_ids a),
                  feasibility_warnings = warns\<rparr>)
      else if captain_policy a = ''separate'' then
        (let downgrade = (captain_hard a \<and> num_captains a > num_teams a);
             warns = (if downgrade then [warning_too_many] else []);
             hard = (if downgrade then False else captain_hard a)
         in if hard
            then \<lparr>capt_vars = [],
                  capt_constraints = map (\<lambda>t. LeC (V (C t)) (Const 1)) (team_ids a),
                  captain_penalty_terms = [],
                  feasibility_warnings = warns\<rparr>
            else \<lparr>capt_vars = map (\<lambda>t. (K t, 0, R a)) (team_ids a),
                  capt_constraints =
                    map (\<lambda>t. GeC (V (K t)) (Lin [(1, C t)] (- 1))) (team_ids a),
                  captain_penalty_terms = map K (team_ids a),
                  feasibility_warnings = warns\<rparr>)
      else \<lparr>capt_vars = [], capt_constraints = [], captain_penalty_terms = [],
            feasibility_warnings = []\<rparr>)"

text \<open>Python's \<^verbatim>\<open>int()\<close> of a float truncates towards zero.\<close>

definition py_int :: "rat \<Rightarrow> int" where
  "py_int q = (if 0 \<le> q then \<lfloor>q\<rfloor> else \<lceil>q\<rceil>)"

definition obj_terms :: "args \<Rightarrow> (rat \<times> var list) list" where
  "obj_terms a =
     (if balance_weight a \<noteq> 0 then [(balance_weight a, map D (team_ids a))] else []) @
     (if conflict_weight a \<noteq> 0 \<and> conflict_terms a \<noteq> []
      then [(of_int (py_int (conflict_weight a * of_int SCALE)), conflict_terms a)] else []) @
     (if captain_weight a \<noteq> 0 \<and> captain_penalty_terms (captain_policy_part a) \<noteq> []
      then [(of_int (py_int (captain_weight a * of_int SCALE)),
             captain_penalty_terms (captain_policy_part a))] else [])"

text \<open>
  Everything \<^verbatim>\<open>build_and_solve\<close> does before \<^verbatim>\<open>solver.Solve\<close>, with its raises in the
  order the source reaches them: \<^verbatim>\<open>np.random.default_rng\<close> rejects a negative seed, the
  preset loop, the division \<^verbatim>\<open>total_score // num_teams\<close>, the check of the policy name.
  The result is the model and \<^verbatim>\<open>feasibility_warnings\<close>.
\<close>

definition build_model :: "args \<Rightarrow> error + cp_model \<times> string list" where
  "build_model a =
     (if random_seed a < 0 then Inl (ValueError SeedNegative)
      else case preset_constraints a (presets a) of
        Inl e \<Rightarrow> Inl e
      | Inr pcs \<Rightarrow>
          if num_teams a = 0 then Inl ZeroDivisionError
          else if captain_policy a \<notin> {''none'', ''at_least_one'', ''separate''}
          then Inl (ValueError BadCaptainPolicy)
          else Inr (\<lparr>variables = x_vars a @ s_vars a @ d_vars a @ diff_vars a @ y_vars a @
                        c_vars a @ capt_vars (captain_policy_part a),
                     constraints = one_team_constraints a @ role_constraints a @ pcs @
                        score_constraints a @ deviation_constraints a @
                        conflict_constraints a @ captain_count_constraints a @
                        capt_constraints (captain_policy_part a),
                     objective = obj_terms a\<rparr>,
                    feasibility_warnings (captain_policy_part a)))"

section \<open>Solving and extraction\<close>

text \<open>The inner loop with \<^verbatim>\<open>break\<close>: the first team whose indicator is 1.\<close>

fun team_for :: "(var \<Rightarrow> int) \<Rightarrow> nat \<Rightarrow> nat list \<Rightarrow> int option" where
  "team_for v p [] = None"
| "team_for v p (t # ts) = (if v (X p t) = 1 then Some (int t + 1) else team_for v p ts)"

text \<open>\<^verbatim>\<open>[team_for_p[p] for p in range(P)]\<close>: a player without a team is a \<^verbatim>\<open>KeyError\<close>.\<close>

fun team_column :: "(var \<Rightarrow> int) \<Rightarrow> nat list \<Rightarrow> nat list \<Rightarrow> error + int list" where
  "team_column v ts [] = Inr []"
| "team_column v ts (p # ps) =
     (case team_for v p ts of
        None \<Rightarrow> Inl (KeyError p)
      | Some k \<Rightarrow> (case team_column v ts ps of Inl e \<Rightarrow> Inl e | Inr ks \<Rightarrow> Inr (k # ks)))"

definition with_team :: "player \<Rightarrow> int \<Rightarrow> assigned" where
  "with_team row k = player.extend row \<lparr>Team = k\<rparr>"

definition make_diagnostics :: "args \<Rightarrow> status \<Rightarrow> (var \<Rightarrow> int) \<Rightarrow> string list \<Rightarrow> diagnostics" where
  "make_diagnostics a st v warns =
     \<lparr>diag_status = (if st = OPTIMAL then ''OPTIMAL'' else ''FEASIBLE''),
      diag_team_scores = map (\<lambda>t. (int t + 1, of_int (v (S t)) / of_int SCALE)) (team_ids a),
      diag_target_score = of_int (target a) / of_int SCALE,
      diag_deviations = map (\<lambda>t. (int t + 1, of_int (v (D t)) / of_int SCALE)) (team_ids a),
      diag_captain_counts = map (\<lambda>t. (int t + 1, v (C t))) (team_ids a),
      diag_num_captains = num_captains a,
      diag_feasibility_warnings = warns\<rparr>"

definition solver_params :: "args \<Rightarrow> solver_parameters" where
  "solver_params a =
     \<lparr>max_time_in_seconds = 30, solver_random_seed = random_seed a, num_search_workers = 8\<rparr>"

text \<open>
  The external solver is a parameter: given the parameters and the model it answers with a
  status and a valuation, and may change a state of its own (\<open>'st\<close>), which stands for
  whatever makes two runs differ. \<^verbatim>\<open>build_and_solve\<close> threads that state, so a run that
  never reaches \<^verbatim>\<open>solver.Solve\<close> returns it unchanged.
\<close>

type_synonym 'st solver =
  "solver_parameters \<Rightarrow> cp_model \<Rightarrow> 'st \<Rightarrow> (status \<times> (var \<Rightarrow> int)) \<times> 'st"

definition extract_solution :: "args \<Rightarrow> status \<Rightarrow> (var \<Rightarrow> int) \<Rightarrow> string list \<Rightarrow>
    error + assigned list \<times> diagnostics" where
  "extract_solution a st v warns =
     (case team_column v (team_ids a) [0..<P a] of
        Inl e \<Rightarrow> Inl e
      | Inr ks \<Rightarrow> Inr (map2 with_team (df a) ks, make_diagnostics a st v warns))"

definition no_assignment :: string where
  "no_assignment = ''No feasible assignment found. Try relaxing constraints or presets.''"

definition build_and_solve :: "'st solver \<Rightarrow> args \<Rightarrow> 'st \<Rightarrow>
    (error + assigned list \<times> diagnostics) \<times> 'st" where
  "build_and_solve solve a st =
     (case build_model a of
        Inl e \<Rightarrow> (Inl e, st)
      | Inr (m, warns) \<Rightarrow>
          (case solve (solver_params a) m st of
             ((status, v), st') \<Rightarrow>
               if status \<notin> {OPTIMAL, FEASIBLE} then (Inl (RuntimeError no_assignment), st')
               else (extract_solution a status v warns, st')))"

text \<open>
  What the core relies on from the solver (spec, 4.2): with status optimal or feasible the
  valuation satisfies every domain and constraint of the model; with status optimal no
  satisfying valuation has a smaller objective.
\<close>

definition sound_solver :: "'st solver \<Rightarrow> bool" where
  "sound_solver solve =
     (\<forall>prm m st. case solve prm m st of
        ((status, v), _) \<Rightarrow>
          (status \<in> {OPTIMAL, FEASIBLE} \<longrightarrow> sat m v) \<and>
          (status = OPTIMAL \<longrightarrow> (\<forall>v'. sat m v' \<longrightarrow> objective_value m v \<le> objective_value m v')))"

section \<open>A concrete roster\<close>

text \<open>
  The roster of the spec's scenarios: roles 1 and 2, two teams, four players, uniform
  weights, policy \<^verbatim>\<open>at_least_one\<close> hard. \<open>roster\<close> has no avoidance and no preset;
  \<open>scenario\<close> adds a mutual avoidance between the first and the last player, an
  avoidance of a name that is not in the roster, and a preset.
\<close>

definition P1 :: player where
  "P1 = \<lparr>Name = ''P1'', Skill = 10, Position = 1, Captain = 0, Avoid = None\<rparr>"

definition P2 :: player where
  "P2 = \<lparr>Name = ''P2'', Skill = 20, Position = 1, Captain = 1, Avoid = None\<rparr>"

definition P3 :: player where
  "P3 = \<lparr>Name = ''P3'', Skill = 15, Position = 2, Captain = 0, Avoid = None\<rparr>"

definition P4 :: player where
  "P4 = \<lparr>Name = ''P4'', Skill = 25, Position = 2, Captain = 1, Avoid = None\<rparr>"

definition roster :: args where
  "roster = \<lparr>df = [P1, P2, P3, P4], roles = [1, 2], role_weights = [1 \<mapsto> 1, 2 \<mapsto> 1],
     num_teams = 2, captain_policy = ''at_least_one'', captain_hard = True,
     conflict_weight = 1, balance_weight = 1, captain_weight = 5,
     presets = [], random_seed = 42\<rparr>"

definition scenario :: args where
  "scenario = roster\<lparr>df := [P1\<lparr>Avoid := Some ''P4''\<rparr>, P2, P3\<lparr>Avoid := Some ''Ghost''\<rparr>,
     P4\<lparr>Avoid := Some ''P1''\<rparr>], presets := [(''P1'', 1)]\<rparr>"

text \<open>The valuation that puts the first and the last player on team 1 and the other
  two on team 2: both teams score 35.00 and have one captain.\<close>

fun valuation :: "var \<Rightarrow> int" where
  "valuation (X p t) =
     (if (p = 0 \<or> p = 3) \<and> t = 0 \<or> (p = 1 \<or> p = 2) \<and> t = 1 then 1 else 0)"
| "valuation (S t) = 3500"
| "valuation (D t) = 0"
| "valuation (Diff t) = 0"
| "valuation (Y i t) = (if t = 0 then 1 else 0)"
| "valuation (C t) = 1"
| "valuation (M t) = 0"
| "valuation (K t) = 0"

text \<open>A solver that answers with a given valuation: feasible when the valuation satisfies
  the model, infeasible otherwise. Its state is the log of the parameters of its calls.\<close>

definition checking_solver :: "(var \<Rightarrow> int) \<Rightarrow> solver_parameters list solver" where
  "checking_solver v prm m calls =
     (if sat m v then ((FEASIBLE, v), calls @ [prm]) else ((INFEASIBLE, v), calls @ [prm]))"

text \<open>A solver that answers one given model with a given status and valuation, and
  gives up on every other model.\<close>

definition oracle_solver :: "cp_model \<Rightarrow> status \<Rightarrow> (var \<Rightarrow> int) \<Rightarrow> solver_parameters list solver" where
  "oracle_solver m0 s0 v0 prm m calls =
     (if m = m0 then ((s0, v0), calls @ [prm]) else ((UNKNOWN, v0), calls @ [prm]))"

section \<open>Predicates of the statements\<close>

text \<open>A preset entry that the preset loop rejects: its name is not a roster name, or its
  team index is outside \<open>1..num_teams\<close>.\<close>

definition bad_preset :: "args \<Rightarrow> string \<times> int \<Rightarrow> bool" where
  "bad_preset a = (\<lambda>(name, team1). name \<notin> set (players a) \<or> \<not> (1 \<le> team1 \<and> team1 \<le> num_teams a))"

text \<open>The model of a run whose pre-solve phase succeeds (the empty model otherwise).\<close>

definition model_of :: "args \<Rightarrow> cp_model" where
  "model_of a =
     (case build_model a of
        Inr (m, w) \<Rightarrow> m
      | Inl e \<Rightarrow> \<lparr>variables = [], constraints = [], objective = []\<rparr>)"




section \<open>Reading the model and the result\<close>

lemma sat_domain:
  "sat m v \<Longrightarrow> (x, lb, ub) \<in> set (variables m) \<Longrightarrow> lb \<le> v x \<and> v x \<le> ub"
  by (auto simp: sat_def list_all_iff)

lemma sat_holds: "sat m v \<Longrightarrow> c \<in> set (constraints m) \<Longrightarrow> holds v c"
  by (simp add: sat_def list_all_iff)

lemma build_model_InrD:
  assumes "build_model a = Inr (m, w)"
  obtains pcs where
    "preset_constraints a (presets a) = Inr pcs"
    "variables m = x_vars a @ s_vars a @ d_vars a @ diff_vars a @ y_vars a @
       c_vars a @ capt_vars (captain_policy_part a)"
    "constraints m = one_team_constraints a @ role_constraints a @ pcs @
       score_constraints a @ deviation_constraints a @ conflict_constraints a @
       captain_count_constraints a @ capt_constraints (captain_policy_part a)"
    "objective m = obj_terms a"
    "w = feasibility_warnings (captain_policy_part a)"
    "num_teams a \<noteq> 0"
    "captain_policy a \<in> {''none'', ''at_least_one'', ''separate''}"
    "0 \<le> random_seed a"
proof (cases "preset_constraints a (presets a)")
  case (Inl e)
  then show ?thesis using assms by (simp add: build_model_def split: if_splits)
next
  case (Inr pcs)
  have seed: "0 \<le> random_seed a"
    using assms by (simp add: build_model_def split: if_splits)
  have nz: "num_teams a \<noteq> 0"
    using assms Inr seed by (simp add: build_model_def split: if_splits)
  have pol: "captain_policy a \<in> {''none'', ''at_least_one'', ''separate''}"
    using assms Inr seed nz by (simp only: build_model_def sum.case if_False not_less[symmetric] split: if_splits) simp_all
  have "m = \<lparr>variables = x_vars a @ s_vars a @ d_vars a @ diff_vars a @ y_vars a @
                        c_vars a @ capt_vars (captain_policy_part a),
                     constraints = one_team_constraints a @ role_constraints a @ pcs @
                        score_constraints a @ deviation_constraints a @
                        conflict_constraints a @ captain_count_constraints a @
                        capt_constraints (captain_policy_part a),
                     objective = obj_terms a\<rparr> \<and> w = feasibility_warnings (captain_policy_part a)"
    using assms Inr seed nz pol by (simp add: build_model_def split: if_splits)
  then show ?thesis using that[OF Inr] seed nz pol by simp
qed

lemma build_and_solve_InrD:
  assumes "build_and_solve solve a st = (Inr (out, diag), st')"
  obtains m w stat v ks where
    "build_model a = Inr (m, w)"
    "solve (solver_params a) m st = ((stat, v), st')"
    "stat = OPTIMAL \<or> stat = FEASIBLE"
    "team_column v (team_ids a) [0..<P a] = Inr ks"
    "out = map2 with_team (df a) ks"
    "diag = make_diagnostics a stat v w"
proof (cases "build_model a")
  case (Inl e)
  then show ?thesis using assms by (simp add: build_and_solve_def)
next
  case (Inr mw)
  obtain m w where mw: "mw = (m, w)" by (cases mw)
  obtain stat v st2 where sv: "solve (solver_params a) m st = ((stat, v), st2)"
    by (metis prod.exhaust)
  have res: "(if stat \<notin> {OPTIMAL, FEASIBLE} then (Inl (RuntimeError no_assignment), st2)
               else (extract_solution a stat v w, st2)) = (Inr (out, diag), st')"
    using assms Inr mw sv by (simp add: build_and_solve_def)
  then have ok: "stat = OPTIMAL \<or> stat = FEASIBLE" by (auto split: if_splits)
  with res have ex: "extract_solution a stat v w = Inr (out, diag)" and st: "st2 = st'" by auto
  then obtain ks where "team_column v (team_ids a) [0..<P a] = Inr ks"
    "out = map2 with_team (df a) ks" "diag = make_diagnostics a stat v w"
    by (auto simp: extract_solution_def split: sum.splits)
  then show ?thesis using that[of m w stat v ks] Inr mw sv st ok by simp
qed

lemma sound_solverD:
  assumes "sound_solver solve" "solve prm m st = ((stat, v), st')"
  shows "stat = OPTIMAL \<or> stat = FEASIBLE \<Longrightarrow> sat m v"
    and "stat = OPTIMAL \<Longrightarrow> sat m v' \<Longrightarrow> objective_value m v \<le> objective_value m v'"
proof -
  have "case solve prm m st of
        ((status, v), _) \<Rightarrow>
          (status \<in> {OPTIMAL, FEASIBLE} \<longrightarrow> sat m v) \<and>
          (status = OPTIMAL \<longrightarrow> (\<forall>v'. sat m v' \<longrightarrow> objective_value m v \<le> objective_value m v'))"
    using assms(1) unfolding sound_solver_def
    by (drule_tac x=prm in spec, drule_tac x=m in spec, drule_tac x=st in spec)
  then have *: "(stat \<in> {OPTIMAL, FEASIBLE} \<longrightarrow> sat m v) \<and>
          (stat = OPTIMAL \<longrightarrow> (\<forall>v'. sat m v' \<longrightarrow> objective_value m v \<le> objective_value m v'))"
    using assms(2) by simp
  show "stat = OPTIMAL \<or> stat = FEASIBLE \<Longrightarrow> sat m v" using * by blast
  show "stat = OPTIMAL \<Longrightarrow> sat m v' \<Longrightarrow> objective_value m v \<le> objective_value m v'"
    using * by blast
qed

lemma sum_list_01_nonneg:
  "\<forall>x\<in>set xs. f x = 0 \<or> f x = (1::int) \<Longrightarrow> 0 \<le> sum_list (map f xs)"
  by (induction xs) auto

lemma sum_list_01_zero:
  "\<forall>x\<in>set xs. f x = 0 \<or> f x = (1::int) \<Longrightarrow> sum_list (map f xs) = 0 \<Longrightarrow> x \<in> set xs \<Longrightarrow> f x = 0"
proof (induction xs)
  case Nil
  then show ?case by simp
next
  case (Cons y ys)
  have "0 \<le> sum_list (map f ys)" using Cons.prems(1) by (intro sum_list_01_nonneg) simp
  moreover have "f y = 0 \<or> f y = 1" using Cons.prems(1) by simp
  ultimately have "f y = 0" "sum_list (map f ys) = 0" using Cons.prems(2) by auto
  then show ?case using Cons by auto
qed

lemma sum_list_01_unique:
  assumes "distinct xs" "\<forall>x\<in>set xs. f x = 0 \<or> f x = (1::int)" "sum_list (map f xs) = 1"
  shows "\<exists>!x. x \<in> set xs \<and> f x = 1"
  using assms
proof (induction xs)
  case Nil
  then show ?case by simp
next
  case (Cons y ys)
  have y01: "f y = 0 \<or> f y = 1" using Cons.prems(2) by simp
  have ys01: "\<forall>x\<in>set ys. f x = 0 \<or> f x = 1" using Cons.prems(2) by simp
  show ?case
  proof (cases "f y = 1")
    case True
    then have "sum_list (map f ys) = 0" using Cons.prems(3) by simp
    then have zero: "\<And>x. x \<in> set ys \<Longrightarrow> f x = 0"
      using sum_list_01_zero[OF ys01] by blast
    show ?thesis
    proof (rule ex1I[of _ y])
      show "y \<in> set (y # ys) \<and> f y = 1" using True by simp
    next
      fix x assume "x \<in> set (y # ys) \<and> f x = 1"
      then show "x = y" using zero[of x] by (cases "x = y") simp_all
    qed
  next
    case False
    then have fy: "f y = 0" using y01 by simp
    then have "sum_list (map f ys) = 1" using Cons.prems(3) by simp
    moreover have "distinct ys" using Cons.prems(1) by simp
    ultimately have "\<exists>!x. x \<in> set ys \<and> f x = 1" using Cons.IH ys01 by blast
    then obtain z where z: "z \<in> set ys" "f z = 1"
      and uniq: "\<And>x. x \<in> set ys \<Longrightarrow> f x = 1 \<Longrightarrow> x = z" by blast
    show ?thesis
    proof (rule ex1I[of _ z])
      show "z \<in> set (y # ys) \<and> f z = 1" using z by simp
    next
      fix x assume x: "x \<in> set (y # ys) \<and> f x = 1"
      then have "x \<noteq> y" using fy by auto
      then show "x = z" using x uniq[of x] by simp
    qed
  qed
qed

lemma team_for_SomeD:
  "team_for v p ts = Some k \<Longrightarrow> \<exists>t\<in>set ts. k = int t + 1 \<and> v (X p t) = 1"
  by (induction ts) (auto split: if_splits)

lemma team_for_NoneD: "team_for v p ts = None \<Longrightarrow> t \<in> set ts \<Longrightarrow> v (X p t) \<noteq> 1"
  by (induction ts) (auto split: if_splits)

lemma team_for_iff:
  assumes "\<exists>!t. t \<in> set ts \<and> v (X p t) = 1" "t \<in> set ts"
  shows "team_for v p ts = Some (int t + 1) \<longleftrightarrow> v (X p t) = 1"
proof
  assume "team_for v p ts = Some (int t + 1)"
  then show "v (X p t) = 1" by (auto dest!: team_for_SomeD)
next
  assume one: "v (X p t) = 1"
  then obtain k where k: "team_for v p ts = Some k"
    using team_for_NoneD[of v p ts t] assms(2) by (cases "team_for v p ts") auto
  then obtain t' where "t' \<in> set ts" "k = int t' + 1" "v (X p t') = 1"
    by (auto dest!: team_for_SomeD)
  then have "t' = t" using assms one by auto
  then show "team_for v p ts = Some (int t + 1)" using k \<open>k = int t' + 1\<close> by simp
qed

lemma team_column_InrD:
  "team_column v ts ps = Inr ks \<Longrightarrow>
     length ks = length ps \<and> (\<forall>i<length ps. team_for v (ps ! i) ts = Some (ks ! i))"
proof (induction ps arbitrary: ks)
  case Nil
  then show ?case by simp
next
  case (Cons p ps)
  from Cons.prems obtain k ks' where k: "team_for v p ts = Some k"
    and ks': "team_column v ts ps = Inr ks'" and ks: "ks = k # ks'"
    by (auto split: option.splits sum.splits)
  from Cons.IH[OF ks'] have len: "length ks' = length ps"
    and nth: "\<And>i. i < length ps \<Longrightarrow> team_for v (ps ! i) ts = Some (ks' ! i)" by auto
  show ?case
  proof (intro conjI allI impI)
    show "length ks = length (p # ps)" using len ks by simp
  next
    fix i assume "i < length (p # ps)"
    then show "team_for v ((p # ps) ! i) ts = Some (ks ! i)"
      using k ks nth by (cases i) auto
  qed
qed

lemma name_to_idx_fold:
  "fold (\<lambda>(i, n) m. m(n \<mapsto> i)) (enumerate k xs) m0 n = Some i \<Longrightarrow>
     m0 n = Some i \<or> (k \<le> i \<and> i < k + length xs \<and> xs ! (i - k) = n)"
proof (induction xs arbitrary: k m0)
  case Nil
  then show ?case by simp
next
  case (Cons x xs)
  from Cons.IH[of "Suc k" "m0(x \<mapsto> k)"] Cons.prems
  have "(m0(x \<mapsto> k)) n = Some i \<or> (Suc k \<le> i \<and> i < Suc k + length xs \<and> xs ! (i - Suc k) = n)"
    by simp
  then show ?case
  proof
    assume "(m0(x \<mapsto> k)) n = Some i"
    then show ?thesis by (auto split: if_splits)
  next
    assume h: "Suc k \<le> i \<and> i < Suc k + length xs \<and> xs ! (i - Suc k) = n"
    then have "i - k = Suc (i - Suc k)" by arith
    then show ?thesis using h by (simp add: nth_Cons)
  qed
qed

lemma name_to_idx_fold_dom:
  "dom (fold (\<lambda>(i, n) m. m(n \<mapsto> i)) (enumerate k xs) m0) = dom m0 \<union> set xs"
  by (induction xs arbitrary: k m0) auto

lemma name_to_idx_SomeD:
  "name_to_idx a n = Some i \<Longrightarrow> i < P a \<and> Name (df a ! i) = n"
  unfolding name_to_idx_def P_def
  by (drule name_to_idx_fold) (auto simp: players_def)

lemma name_to_idx_dom: "dom (name_to_idx a) = set (players a)"
  by (simp add: name_to_idx_def name_to_idx_fold_dom)


lemma X_bool:
  assumes "build_model a = Inr (m, w)" "sat m v" "p < P a" "t < nat (num_teams a)"
  shows "v (X p t) = 0 \<or> v (X p t) = 1"
proof -
  have "(X p t, 0, 1) \<in> set (x_vars a)"
    using assms(3,4) by (auto simp: x_vars_def team_ids_def intro!: bexI[of _ p])
  then have "(X p t, 0, 1) \<in> set (variables m)"
    using assms(1) by (auto elim!: build_model_InrD)
  from sat_domain[OF assms(2) this] show ?thesis by auto
qed

lemma one_team_sum:
  assumes "build_model a = Inr (m, w)" "sat m v" "p < P a"
  shows "sum_list (map (\<lambda>t. v (X p t)) (team_ids a)) = 1"
proof -
  have "EqC (Lin (map (\<lambda>t. (1, X p t)) (team_ids a)) 0) (Const 1) \<in> set (one_team_constraints a)"
    using assms(3) by (auto simp: one_team_constraints_def)
  then have "EqC (Lin (map (\<lambda>t. (1, X p t)) (team_ids a)) 0) (Const 1) \<in> set (constraints m)"
    using assms(1) by (auto elim!: build_model_InrD)
  from sat_holds[OF assms(2) this] show ?thesis by (simp add: comp_def)
qed

lemma role_sum:
  assumes "build_model a = Inr (m, w)" "sat m v" "t < nat (num_teams a)" "r \<in> set (roles a)"
  shows "sum_list (map (\<lambda>p. v (X p t)) (filter (\<lambda>p. pos a p = r) [0..<P a])) = 1"
proof -
  let ?c = "EqC (Lin (map (\<lambda>p. (1, X p t)) (filter (\<lambda>p. pos a p = r) [0..<P a])) 0) (Const 1)"
  have "?c \<in> set (role_constraints a)"
    using assms(3,4) by (auto simp: role_constraints_def team_ids_def roles_sorted_def)
  then have "?c \<in> set (constraints m)"
    using assms(1) by (auto elim!: build_model_InrD)
  from sat_holds[OF assms(2) this] show ?thesis by (simp add: comp_def)
qed

lemma unique_team:
  assumes "build_model a = Inr (m, w)" "sat m v" "p < P a"
  shows "\<exists>!t. t \<in> set (team_ids a) \<and> v (X p t) = 1"
proof (rule sum_list_01_unique)
  show "distinct (team_ids a)" by (simp add: team_ids_def)
  show "\<forall>t\<in>set (team_ids a). v (X p t) = 0 \<or> v (X p t) = 1"
    using X_bool[OF assms] by (simp add: team_ids_def)
  show "sum_list (map (\<lambda>t. v (X p t)) (team_ids a)) = 1" by (rule one_team_sum[OF assms])
qed

lemma team_label_iff:
  assumes "build_model a = Inr (m, w)" "sat m v" "p < P a" "t < nat (num_teams a)"
    "team_column v (team_ids a) [0..<P a] = Inr ks"
  shows "ks ! p = int t + 1 \<longleftrightarrow> v (X p t) = 1"
proof -
  have "team_for v p (team_ids a) = Some (ks ! p)"
    using team_column_InrD[OF assms(5)] assms(3) by simp
  moreover have "team_for v p (team_ids a) = Some (int t + 1) \<longleftrightarrow> v (X p t) = 1"
    using unique_team[OF assms(1-3)] assms(4) by (intro team_for_iff) (simp_all add: team_ids_def)
  ultimately show ?thesis by auto
qed

lemma team_label_range:
  assumes "p < P a" "team_column v (team_ids a) [0..<P a] = Inr ks"
  shows "1 \<le> ks ! p \<and> ks ! p \<le> num_teams a"
proof -
  have "team_for v p (team_ids a) = Some (ks ! p)"
    using team_column_InrD[OF assms(2)] assms(1) by simp
  then obtain t where "t \<in> set (team_ids a)" "ks ! p = int t + 1"
    by (auto dest!: team_for_SomeD)
  then show ?thesis by (auto simp: team_ids_def)
qed

lemma with_team_simps:
  "Team (with_team row k) = k" "Position (with_team row k) = Position row"
  "Name (with_team row k) = Name row" "Captain (with_team row k) = Captain row"
  "Skill (with_team row k) = Skill row" "Avoid (with_team row k) = Avoid row"
  "player.truncate (with_team row k) = row"
  by (simp_all add: with_team_def player.defs)

lemma out_nth:
  assumes "team_column v (team_ids a) [0..<P a] = Inr ks" "p < P a"
  shows "map2 with_team (df a) ks ! p = with_team (df a ! p) (ks ! p)"
  using team_column_InrD[OF assms(1)] assms(2) by (simp add: P_def players_def)

lemma out_length:
  assumes "team_column v (team_ids a) [0..<P a] = Inr ks"
  shows "length (map2 with_team (df a) ks) = P a"
  using team_column_InrD[OF assms(1)] by (simp add: P_def players_def)

lemma truncate_out:
  "length ks = length xs \<Longrightarrow> map player.truncate (map2 with_team xs ks) = xs"
  by (induction xs ks rule: list_induct2') (simp_all add: with_team_simps)

lemma unique_player_of_role:
  assumes "build_model a = Inr (m, w)" "sat m v" "t < nat (num_teams a)" "r \<in> set (roles a)"
  shows "\<exists>!p. p < P a \<and> pos a p = r \<and> v (X p t) = 1"
proof -
  let ?xs = "filter (\<lambda>p. pos a p = r) [0..<P a]"
  have "\<exists>!p. p \<in> set ?xs \<and> v (X p t) = 1"
  proof (rule sum_list_01_unique)
    show "distinct ?xs" by simp
    show "\<forall>p\<in>set ?xs. v (X p t) = 0 \<or> v (X p t) = 1"
      using X_bool[OF assms(1,2) _ assms(3)] by simp
    show "sum_list (map (\<lambda>p. v (X p t)) ?xs) = 1" by (rule role_sum[OF assms])
  qed
  moreover have "\<And>p. (p \<in> set ?xs \<and> v (X p t) = 1) = (p < P a \<and> pos a p = r \<and> v (X p t) = 1)"
    by auto
  ultimately show ?thesis by simp
qed

lemmas scenario_defs = scenario_def roster_def P1_def P2_def P3_def P4_def players_def P_def
  name_to_idx_def team_ids_def roles_sorted_def R_def skill_def pos_def is_capt_def
  weight_by_role_def weighted_skill_def avoid_pair_def avoid_pairs_def x_vars_def
  one_team_constraints_def role_constraints_def np_round_def SCALE_def scaled_ws_def
  s_vars_def score_constraints_def total_score_def target_def d_vars_def diff_vars_def
  deviation_constraints_def conflict_terms_def y_vars_def conflict_constraints_def c_vars_def
  captain_count_constraints_def num_captains_def captain_policy_part_def py_int_def
  obj_terms_def build_model_def sat_def Let_def upt_rec

lemmas run_defs = build_and_solve_def checking_solver_def solver_params_def
  extract_solution_def make_diagnostics_def with_team_def player.defs

lemma sound_checking_solver: "sound_solver (checking_solver v)"
  by (simp add: sound_solver_def checking_solver_def)

lemma scenario_run:
  "build_and_solve (checking_solver valuation) scenario [] =
     (Inr ([with_team (P1\<lparr>Avoid := Some ''P4''\<rparr>) 1, with_team P2 2,
            with_team (P3\<lparr>Avoid := Some ''Ghost''\<rparr>) 2,
            with_team (P4\<lparr>Avoid := Some ''P1''\<rparr>) 1],
           \<lparr>diag_status = ''FEASIBLE'', diag_team_scores = [(1, 35), (2, 35)],
            diag_target_score = 35, diag_deviations = [(1, 0), (2, 0)],
            diag_captain_counts = [(1, 1), (2, 1)], diag_num_captains = 2,
            diag_feasibility_warnings = []\<rparr>),
      [\<lparr>max_time_in_seconds = 30, solver_random_seed = 42, num_search_workers = 8\<rparr>])"
  by (simp add: scenario_defs run_defs)

section \<open>The structural constraints\<close>

text \<open>
  C1. Whenever \<^verbatim>\<open>build_and_solve\<close> returns a result (the solver being sound), the
  returned dataframe is the input dataframe with one \<^verbatim>\<open>Team\<close> label per player, every
  label lies in \<open>1..num_teams\<close>, and for every team and every role exactly one player
  holding that role carries that team's label.
\<close>

theorem one_team_and_one_player_per_role:
  assumes "sound_solver solve" and "build_and_solve solve a st = (Inr (out, diag), st')"
  shows "map player.truncate out = df a \<and>
    (\<forall>p<length out. 1 \<le> Team (out ! p) \<and> Team (out ! p) \<le> num_teams a) \<and>
    (\<forall>t\<in>{1..num_teams a}. \<forall>r\<in>set (roles a).
       \<exists>!p. p < length out \<and> Position (out ! p) = r \<and> Team (out ! p) = t)"
proof -
  from assms(2) obtain m w stat v ks where
    bm: "build_model a = Inr (m, w)" and
    sv: "solve (solver_params a) m st = ((stat, v), st')" and
    ok: "stat = OPTIMAL \<or> stat = FEASIBLE" and
    tc: "team_column v (team_ids a) [0..<P a] = Inr ks" and
    out: "out = map2 with_team (df a) ks"
    by (rule build_and_solve_InrD)
  have sat: "sat m v" by (rule sound_solverD(1)[OF assms(1) sv ok])
  have len_ks: "length ks = length (df a)"
    using team_column_InrD[OF tc] by (simp add: P_def players_def)
  have len: "length out = P a" using out_length[OF tc] out by simp
  have team: "\<And>p. p < P a \<Longrightarrow> Team (out ! p) = ks ! p"
    and posn: "\<And>p. p < P a \<Longrightarrow> Position (out ! p) = pos a p"
    using out_nth[OF tc] out by (simp_all add: with_team_simps pos_def)
  have A: "map player.truncate out = df a" unfolding out by (rule truncate_out[OF len_ks])
  have B: "\<forall>p<length out. 1 \<le> Team (out ! p) \<and> Team (out ! p) \<le> num_teams a"
    using team_label_range[OF _ tc] team len by simp
  have C: "\<forall>t\<in>{1..num_teams a}. \<forall>r\<in>set (roles a).
       \<exists>!p. p < length out \<and> Position (out ! p) = r \<and> Team (out ! p) = t"
  proof (intro ballI)
    fix t r assume t: "t \<in> {1..num_teams a}" and r: "r \<in> set (roles a)"
    define t0 where "t0 = nat (t - 1)"
    have t0: "t0 < nat (num_teams a)" "int t0 + 1 = t" using t by (auto simp: t0_def)
    have "\<And>p. (p < length out \<and> Position (out ! p) = r \<and> Team (out ! p) = t)
        = (p < P a \<and> pos a p = r \<and> v (X p t0) = 1)"
      using team_label_iff[OF bm sat _ t0(1) tc] team posn len t0(2) by auto
    then show "\<exists>!p. p < length out \<and> Position (out ! p) = r \<and> Team (out ! p) = t"
      using unique_player_of_role[OF bm sat t0(1) r] by simp
  qed
  show ?thesis using A B C by blast
qed

theorem one_team_and_one_player_per_role_witness:
  "sound_solver (checking_solver valuation) \<and>
   (\<exists>out diag calls.
      build_and_solve (checking_solver valuation) scenario [] = (Inr (out, diag), calls) \<and>
      map player.truncate out = df scenario \<and>
      (\<exists>!p. p < length out \<and> Position (out ! p) = 2 \<and> Team (out ! p) = 1))"
proof -
  obtain out diag calls where
    run: "build_and_solve (checking_solver valuation) scenario [] = (Inr (out, diag), calls)"
    using scenario_run by blast
  have t: "(1::int) \<in> {1..num_teams scenario}" and r: "(2::int) \<in> set (roles scenario)"
    by (simp_all add: scenario_def roster_def)
  from one_team_and_one_player_per_role[OF sound_checking_solver run] t r
  have "map player.truncate out = df scenario"
    and "\<exists>!p. p < length out \<and> Position (out ! p) = 2 \<and> Team (out ! p) = 1"
    by blast+
  then show ?thesis using run sound_checking_solver by auto
qed

section \<open>Solver failure\<close>

text \<open>
  C8. When the model has been built and the solver answers with a status other than
  optimal or feasible, \<^verbatim>\<open>build_and_solve\<close> raises \<^verbatim>\<open>RuntimeError\<close>: no dataframe and no
  diagnostics are returned, and the solver's state is the one after that single call,
  so the solver is not called again.
\<close>

theorem solver_failure_is_fatal:
  assumes "build_model a = Inr (m, w)"
    and "fst (fst (solve (solver_params a) m st)) \<notin> {OPTIMAL, FEASIBLE}"
  shows "build_and_solve solve a st =
    (Inl (RuntimeError no_assignment), snd (solve (solver_params a) m st))"
proof -
  obtain stat v st2 where sv: "solve (solver_params a) m st = ((stat, v), st2)"
    by (metis prod.exhaust)
  then show ?thesis using assms by (simp add: build_and_solve_def)
qed

theorem solver_failure_is_fatal_witness:
  "(\<exists>m w. build_model roster = Inr (m, w) \<and>
      fst (fst (checking_solver (\<lambda>x. 0) (solver_params roster) m [])) \<notin> {OPTIMAL, FEASIBLE}) \<and>
   build_and_solve (checking_solver (\<lambda>x. 0)) roster [] =
     (Inl (RuntimeError no_assignment), [solver_params roster])"
proof -
  obtain m w where bm: "build_model roster = Inr (m, w)"
    by (simp add: scenario_defs)
  have unsat: "\<not> sat m (\<lambda>x. 0)"
    using bm by (auto simp: scenario_defs)
  then have st: "fst (fst (checking_solver (\<lambda>x. 0) (solver_params roster) m [])) \<notin> {OPTIMAL, FEASIBLE}"
    by (simp add: checking_solver_def)
  from solver_failure_is_fatal[where solve = "checking_solver (\<lambda>x. 0)" and st = "[]", OF bm st]
  have "build_and_solve (checking_solver (\<lambda>x. 0)) roster [] =
     (Inl (RuntimeError no_assignment), [solver_params roster])"
    using unsat by (simp add: checking_solver_def)
  then show ?thesis using bm st by blast
qed

section \<open>Presets\<close>

lemma preset_constraints_InrD:
  "preset_constraints a ps = Inr cs \<Longrightarrow> (name, team1) \<in> set ps \<Longrightarrow>
     \<exists>p. name_to_idx a name = Some p \<and> 1 \<le> team1 \<and> team1 \<le> num_teams a \<and>
       (\<forall>tt\<in>set (team_ids a).
          EqC (V (X p tt)) (Const (if tt = nat (team1 - 1) then 1 else 0)) \<in> set cs)"
proof (induction ps arbitrary: cs)
  case Nil
  then show ?case by simp
next
  case (Cons q ps)
  obtain n k where q: "q = (n, k)" by (cases q)
  from Cons.prems(1) q obtain p cs' where
    p: "name_to_idx a n = Some p" and rng: "1 \<le> k \<and> k \<le> num_teams a" and
    rest: "preset_constraints a ps = Inr cs'" and
    cs: "cs = map (\<lambda>tt. EqC (V (X p tt)) (Const (if tt = nat (k - 1) then 1 else 0)))
                (team_ids a) @ cs'"
    by (auto split: option.splits if_splits sum.splits)
  show ?case
  proof (cases "(name, team1) = q")
    case True
    then have "name = n" "team1 = k" using q by simp_all
    moreover have "\<forall>tt\<in>set (team_ids a).
          EqC (V (X p tt)) (Const (if tt = nat (k - 1) then 1 else 0)) \<in> set cs"
      unfolding cs by simp
    ultimately show ?thesis using p rng by blast
  next
    case False
    then have "(name, team1) \<in> set ps" using Cons.prems(2) by simp
    from Cons.IH[OF rest this] obtain p' where
      "name_to_idx a name = Some p'" "1 \<le> team1" "team1 \<le> num_teams a"
      "\<forall>tt\<in>set (team_ids a).
          EqC (V (X p' tt)) (Const (if tt = nat (team1 - 1) then 1 else 0)) \<in> set cs'"
      by blast
    moreover have "set cs' \<subseteq> set cs" using cs by simp
    ultimately show ?thesis by blast
  qed
qed

text \<open>
  C4. Whenever \<^verbatim>\<open>build_and_solve\<close> returns a result, every entry \<open>(name, team1)\<close> of
  the presets names a roster player and has \<open>1 \<le> team1 \<le> num_teams\<close>; the model holds,
  for the player \<^verbatim>\<open>name_to_idx[name]\<close> and every team, the constraint that pins the
  indicator to 1 for team \<open>team1\<close> and to 0 for the others; and the returned row of that
  player carries the label \<open>team1\<close>. With unique names, every returned row of that name
  carries it.
\<close>

theorem preset_fixes_team_label:
  assumes "sound_solver solve" and "build_and_solve solve a st = (Inr (out, diag), st')"
    and "(name, team1) \<in> set (presets a)"
  shows "name \<in> set (players a) \<and> 1 \<le> team1 \<and> team1 \<le> num_teams a \<and>
    (\<exists>p m w. name_to_idx a name = Some p \<and> p < length out \<and> Name (out ! p) = name \<and>
       Team (out ! p) = team1 \<and> build_model a = Inr (m, w) \<and>
       (\<forall>tt<nat (num_teams a).
          EqC (V (X p tt)) (Const (if int tt + 1 = team1 then 1 else 0)) \<in> set (constraints m))) \<and>
    (distinct (players a) \<longrightarrow>
       (\<forall>q<length out. Name (out ! q) = name \<longrightarrow> Team (out ! q) = team1))"
proof -
  from assms(2) obtain m w stat v ks where
    bm: "build_model a = Inr (m, w)" and
    sv: "solve (solver_params a) m st = ((stat, v), st')" and
    ok: "stat = OPTIMAL \<or> stat = FEASIBLE" and
    tc: "team_column v (team_ids a) [0..<P a] = Inr ks" and
    out: "out = map2 with_team (df a) ks"
    by (rule build_and_solve_InrD)
  have sat: "sat m v" by (rule sound_solverD(1)[OF assms(1) sv ok])
  from bm obtain pcs where pcs: "preset_constraints a (presets a) = Inr pcs"
    and cm: "set pcs \<subseteq> set (constraints m)"
    by (rule build_model_InrD) auto
  from preset_constraints_InrD[OF pcs assms(3)] obtain p where
    p: "name_to_idx a name = Some p" and rng: "1 \<le> team1" "team1 \<le> num_teams a" and
    pin: "\<And>tt. tt \<in> set (team_ids a) \<Longrightarrow>
      EqC (V (X p tt)) (Const (if tt = nat (team1 - 1) then 1 else 0)) \<in> set pcs"
    by blast
  have pP: "p < P a" and nm: "Name (df a ! p) = name"
    using name_to_idx_SomeD[OF p] by simp_all
  have len: "length out = P a" using out_length[OF tc] out by simp
  have row: "\<And>q. q < P a \<Longrightarrow> out ! q = with_team (df a ! q) (ks ! q)"
    using out_nth[OF tc] out by simp
  define t0 where "t0 = nat (team1 - 1)"
  have t0: "t0 < nat (num_teams a)" "int t0 + 1 = team1" using rng by (auto simp: t0_def)
  have eq: "\<And>tt. (tt = nat (team1 - 1)) = (int tt + 1 = team1)" using rng by auto
  have pin': "EqC (V (X p tt)) (Const (if int tt + 1 = team1 then 1 else 0)) \<in> set (constraints m)"
    if "tt < nat (num_teams a)" for tt
  proof -
    have "EqC (V (X p tt)) (Const (if tt = nat (team1 - 1) then 1 else 0)) \<in> set pcs"
      using pin[of tt] that by (simp add: team_ids_def)
    then have "EqC (V (X p tt)) (Const (if tt = nat (team1 - 1) then 1 else 0)) \<in> set (constraints m)"
      using cm by (rule set_mp[rotated])
    then show ?thesis by (simp only: eq)
  qed
  have "holds v (EqC (V (X p t0)) (Const (if int t0 + 1 = team1 then 1 else 0)))"
    using sat_holds[OF sat pin'[OF t0(1)]] .
  then have "v (X p t0) = 1" using t0(2) by simp
  then have "ks ! p = team1" using team_label_iff[OF bm sat pP t0(1) tc] t0(2) by simp
  then have team: "Team (out ! p) = team1" using row[OF pP] by (simp add: with_team_simps)
  have name_out: "\<And>q. q < P a \<Longrightarrow> Name (out ! q) = players a ! q"
    using row by (simp add: with_team_simps players_def P_def)
  have A: "name \<in> set (players a)"
    using pP nm by (auto simp: players_def P_def in_set_conv_nth intro!: exI[of _ p])
  have B: "\<exists>p m w. name_to_idx a name = Some p \<and> p < length out \<and> Name (out ! p) = name \<and>
       Team (out ! p) = team1 \<and> build_model a = Inr (m, w) \<and>
       (\<forall>tt<nat (num_teams a).
          EqC (V (X p tt)) (Const (if int tt + 1 = team1 then 1 else 0)) \<in> set (constraints m))"
    using p pP len nm row[OF pP] team bm pin' by (auto simp: with_team_simps)
  have C: "distinct (players a) \<longrightarrow>
       (\<forall>q<length out. Name (out ! q) = name \<longrightarrow> Team (out ! q) = team1)"
  proof (intro impI allI)
    fix q assume d: "distinct (players a)" and q: "q < length out" and n: "Name (out ! q) = name"
    have "players a ! q = players a ! p"
      using name_out[of q] name_out[OF pP] n nm row[OF pP] q len by (simp add: with_team_simps)
    then have "q = p" using d q len pP by (simp add: nth_eq_iff_index_eq P_def)
    then show "Team (out ! q) = team1" using team by simp
  qed
  show ?thesis using A B C rng by blast
qed

theorem preset_fixes_team_label_witness:
  "sound_solver (checking_solver valuation) \<and> (''P1'', 1) \<in> set (presets scenario) \<and>
   distinct (players scenario) \<and>
   (\<exists>out diag calls.
      build_and_solve (checking_solver valuation) scenario [] = (Inr (out, diag), calls) \<and>
      (\<exists>p. name_to_idx scenario ''P1'' = Some p \<and> p < length out \<and>
         Name (out ! p) = ''P1'' \<and> Team (out ! p) = 1))"
proof -
  obtain out diag calls where
    run: "build_and_solve (checking_solver valuation) scenario [] = (Inr (out, diag), calls)"
    using scenario_run by blast
  have pre: "(''P1'', 1) \<in> set (presets scenario)" by (simp add: scenario_def roster_def)
  have d: "distinct (players scenario)" by (simp add: scenario_defs)
  from preset_fixes_team_label[OF sound_checking_solver run pre]
  have "\<exists>p. name_to_idx scenario ''P1'' = Some p \<and> p < length out \<and>
         Name (out ! p) = ''P1'' \<and> Team (out ! p) = 1"
    by blast
  then show ?thesis using run pre d sound_checking_solver by blast
qed

section \<open>Avoidance of a name that is not in the roster\<close>

lemma preset_constraints_cong:
  assumes "name_to_idx a' = name_to_idx a" "num_teams a' = num_teams a"
  shows "preset_constraints a' ps = preset_constraints a ps"
proof (induction ps)
  case Nil
  show ?case by simp
next
  case (Cons q ps)
  obtain n k where q: "q = (n, k)" by (cases q)
  show ?case unfolding q using Cons assms by (simp add: team_ids_def split: option.splits sum.splits)
qed

lemma build_model_cong:
  assumes a': "a' = a\<lparr>df := d\<rparr>"
    and pl: "players a' = players a" and ps: "pos a' = pos a" and sk: "skill a' = skill a"
    and ic: "is_capt a' = is_capt a" and av: "avoid_pairs a' = avoid_pairs a"
  shows "build_model a' = build_model a"
    and "team_ids a' = team_ids a" and "P a' = P a" and "target a' = target a"
    and "num_captains a' = num_captains a" and "solver_params a' = solver_params a"
proof -
  have f: "roles a' = roles a" "role_weights a' = role_weights a" "num_teams a' = num_teams a"
    "captain_policy a' = captain_policy a" "captain_hard a' = captain_hard a"
    "conflict_weight a' = conflict_weight a" "balance_weight a' = balance_weight a"
    "captain_weight a' = captain_weight a" "presets a' = presets a"
    "random_seed a' = random_seed a"
    by (simp_all add: a')
  have P: "P a' = P a" by (simp add: P_def pl)
  have n2i: "name_to_idx a' = name_to_idx a" by (simp add: name_to_idx_def pl)
  have nt: "num_teams a' = num_teams a" by (simp add: f)
  have ti: "team_ids a' = team_ids a" by (simp add: team_ids_def f)
  have rs: "roles_sorted a' = roles_sorted a" by (simp add: roles_sorted_def f)
  have R: "R a' = R a" by (simp add: R_def rs)
  have wr: "weight_by_role a' = weight_by_role a"
    by (rule ext) (simp add: weight_by_role_def ps f)
  have ws: "weighted_skill a' = weighted_skill a"
    by (rule ext) (simp add: weighted_skill_def sk wr)
  have sw: "scaled_ws a' = scaled_ws a" by (rule ext) (simp add: scaled_ws_def ws)
  have tot: "total_score a' = total_score a" by (simp add: total_score_def sw P)
  show tg: "target a' = target a" by (simp add: target_def tot nt)
  show nc: "num_captains a' = num_captains a" by (simp add: num_captains_def ic P)
  have ct: "conflict_terms a' = conflict_terms a" by (simp add: conflict_terms_def av ti)
  have cp: "captain_policy_part a' = captain_policy_part a"
    unfolding captain_policy_part_def nc ti R f ..
  have 1: "x_vars a' = x_vars a" by (simp add: x_vars_def ti P)
  have 2: "s_vars a' = s_vars a" by (simp add: s_vars_def ti)
  have 3: "d_vars a' = d_vars a" by (simp add: d_vars_def ti)
  have 4: "diff_vars a' = diff_vars a" by (simp add: diff_vars_def ti)
  have 5: "y_vars a' = y_vars a" by (simp add: y_vars_def ct)
  have 6: "c_vars a' = c_vars a" by (simp add: c_vars_def ti R)
  have 7: "one_team_constraints a' = one_team_constraints a"
    by (simp add: one_team_constraints_def ti P)
  have 8: "role_constraints a' = role_constraints a"
    by (simp add: role_constraints_def ti P rs ps)
  have 9: "score_constraints a' = score_constraints a"
    by (simp add: score_constraints_def ti P sw)
  have 10: "deviation_constraints a' = deviation_constraints a"
    by (simp add: deviation_constraints_def ti tg)
  have 11: "conflict_constraints a' = conflict_constraints a"
    by (simp add: conflict_constraints_def ti av)
  have 12: "captain_count_constraints a' = captain_count_constraints a"
    by (simp add: captain_count_constraints_def ti P ic)
  have 13: "obj_terms a' = obj_terms a"
    unfolding obj_terms_def ct cp ti f ..
  have 14: "preset_constraints a' (presets a) = preset_constraints a (presets a)"
    by (rule preset_constraints_cong[OF n2i nt])
  show "build_model a' = build_model a"
    unfolding build_model_def 1 2 3 4 5 6 7 8 9 10 11 12 13 cp f 14 ..
  show "team_ids a' = team_ids a" by (rule ti)
  show "P a' = P a" by (rule P)
  show "solver_params a' = solver_params a" by (simp add: solver_params_def f)
qed

lemma restore_avoid:
  assumes "i < length xs" "length ks = length xs" "Avoid (xs ! i) = Some b"
  shows "(map2 with_team (xs[i := (xs ! i)\<lparr>Avoid := None\<rparr>]) ks)
            [i := (map2 with_team (xs[i := (xs ! i)\<lparr>Avoid := None\<rparr>]) ks ! i)\<lparr>Avoid := Some b\<rparr>]
         = map2 with_team xs ks"
proof (rule nth_equalityI)
  show "length ((map2 with_team (xs[i := (xs ! i)\<lparr>Avoid := None\<rparr>]) ks)
            [i := (map2 with_team (xs[i := (xs ! i)\<lparr>Avoid := None\<rparr>]) ks ! i)\<lparr>Avoid := Some b\<rparr>])
        = length (map2 with_team xs ks)"
    by simp
next
  fix j
  assume "j < length ((map2 with_team (xs[i := (xs ! i)\<lparr>Avoid := None\<rparr>]) ks)
            [i := (map2 with_team (xs[i := (xs ! i)\<lparr>Avoid := None\<rparr>]) ks ! i)\<lparr>Avoid := Some b\<rparr>])"
  then have j: "j < length xs" using assms(2) by simp
  have "with_team ((xs ! i)\<lparr>Avoid := None\<rparr>) (ks ! i)\<lparr>Avoid := Some b\<rparr> = with_team (xs ! i) (ks ! i)"
    using assms(3) by (cases "xs ! i") (simp add: with_team_def player.defs)
  then show "(map2 with_team (xs[i := (xs ! i)\<lparr>Avoid := None\<rparr>]) ks)
            [i := (map2 with_team (xs[i := (xs ! i)\<lparr>Avoid := None\<rparr>]) ks ! i)\<lparr>Avoid := Some b\<rparr>] ! j
         = map2 with_team xs ks ! j"
    using j assms(1,2) by (simp add: nth_list_update)
qed

text \<open>
  C10. If the \<^verbatim>\<open>Avoid\<close> field of row \<open>i\<close> names a string that is no player's name, the
  row contributes no directed pair, and \<^verbatim>\<open>build_and_solve\<close> behaves as on the roster
  whose row \<open>i\<close> has \<^verbatim>\<open>Avoid = None\<close>: the list of pairs is the same, the pre-solve
  phase gives the same error or the same model (variables, constraints, objective) and
  the same warnings, and the run gives the same error or the same labels and
  diagnostics, the returned row \<open>i\<close> keeping its \<^verbatim>\<open>Avoid\<close> value.
\<close>

theorem unknown_avoid_target_is_ignored:
  assumes "i < length (df a)" and "Avoid (df a ! i) = Some b" and "b \<notin> set (players a)"
  shows "avoid_pair a (df a ! i) = [] \<and>
    avoid_pairs a = avoid_pairs (a\<lparr>df := (df a)[i := (df a ! i)\<lparr>Avoid := None\<rparr>]\<rparr>) \<and>
    build_model a = build_model (a\<lparr>df := (df a)[i := (df a ! i)\<lparr>Avoid := None\<rparr>]\<rparr>) \<and>
    build_and_solve solve a st =
      (case build_and_solve solve (a\<lparr>df := (df a)[i := (df a ! i)\<lparr>Avoid := None\<rparr>]\<rparr>) st of
         (Inl e, s) \<Rightarrow> (Inl e, s)
       | (Inr (out, diag), s) \<Rightarrow> (Inr (out[i := (out ! i)\<lparr>Avoid := Some b\<rparr>], diag), s))"
proof -
  define r' where "r' = (df a ! i)\<lparr>Avoid := None\<rparr>"
  define a' where "a' = a\<lparr>df := (df a)[i := r']\<rparr>"
  have none: "name_to_idx a b = None"
    using assms(3) name_to_idx_dom[of a] by (auto simp: dom_def)
  have "players a' = (map Name (df a))[i := map Name (df a) ! i]"
    using assms(1) by (simp add: players_def a'_def r'_def map_update)
  then have pl: "players a' = players a" by (simp only: list_update_id players_def)
  have field: "\<And>p. Position (df a' ! p) = Position (df a ! p) \<and> Skill (df a' ! p) = Skill (df a ! p)
      \<and> Captain (df a' ! p) = Captain (df a ! p) \<and> Name (df a' ! p) = Name (df a ! p)"
    using assms(1) by (simp add: a'_def r'_def nth_list_update)
  have ps: "pos a' = pos a" and sk: "skill a' = skill a" and ic: "is_capt a' = is_capt a"
    using field by (simp_all add: fun_eq_iff pos_def skill_def is_capt_def)
  have n2i: "name_to_idx a' = name_to_idx a" by (simp add: name_to_idx_def pl)
  have ap: "avoid_pair a' = avoid_pair a" unfolding avoid_pair_def n2i ..
  have A: "avoid_pair a (df a ! i) = []" using assms(2) none by (simp add: avoid_pair_def)
  have A': "avoid_pair a r' = []" by (simp add: avoid_pair_def r'_def)
  have "map (avoid_pair a) (df a') = (map (avoid_pair a) (df a))[i := avoid_pair a r']"
    by (simp add: a'_def map_update)
  also have "avoid_pair a r' = map (avoid_pair a) (df a) ! i" using A A' assms(1) by simp
  also have "(map (avoid_pair a) (df a))[i := map (avoid_pair a) (df a) ! i] = map (avoid_pair a) (df a)"
    by (rule list_update_id)
  finally have av: "avoid_pairs a' = avoid_pairs a" by (simp add: avoid_pairs_def ap)
  have a'df: "a' = a\<lparr>df := (df a)[i := r']\<rparr>" by (rule a'_def)
  note cong = build_model_cong[OF a'df pl ps sk ic av]
  have md: "make_diagnostics a' = make_diagnostics a"
    by (intro ext) (simp add: make_diagnostics_def cong)
  have ex: "extract_solution a stat v w =
      (case extract_solution a' stat v w of Inl e \<Rightarrow> Inl e
       | Inr (out, diag) \<Rightarrow> Inr (out[i := (out ! i)\<lparr>Avoid := Some b\<rparr>], diag))" for stat v w
  proof (cases "team_column v (team_ids a) [0..<P a]")
    case (Inl e)
    then show ?thesis by (simp add: extract_solution_def cong)
  next
    case (Inr ks)
    have len: "length ks = length (df a)"
      using team_column_InrD[OF Inr] by (simp add: P_def players_def)
    have "(map2 with_team (df a') ks)[i := (map2 with_team (df a') ks ! i)\<lparr>Avoid := Some b\<rparr>]
        = map2 with_team (df a) ks"
      unfolding a'_def r'_def using restore_avoid[OF assms(1) len assms(2)] by simp
    then show ?thesis using Inr by (simp add: extract_solution_def cong md)
  qed
  have B: "build_and_solve solve a st =
      (case build_and_solve solve a' st of
         (Inl e, s) \<Rightarrow> (Inl e, s)
       | (Inr (out, diag), s) \<Rightarrow> (Inr (out[i := (out ! i)\<lparr>Avoid := Some b\<rparr>], diag), s))"
    unfolding build_and_solve_def cong ex[of _ _ _]
    by (simp split: sum.splits prod.splits)
  show ?thesis using A av cong(1) B unfolding a'_def r'_def by simp
qed

theorem unknown_avoid_target_is_ignored_witness:
  "2 < length (df scenario) \<and> Avoid (df scenario ! 2) = Some ''Ghost'' \<and>
   ''Ghost'' \<notin> set (players scenario) \<and> avoid_pairs scenario = [(0, 3), (3, 0)] \<and>
   build_model scenario =
     build_model (scenario\<lparr>df := (df scenario)[2 := (df scenario ! 2)\<lparr>Avoid := None\<rparr>]\<rparr>)"
proof -
  have h: "2 < length (df scenario)" "Avoid (df scenario ! 2) = Some ''Ghost''"
    "''Ghost'' \<notin> set (players scenario)"
    by (simp_all add: scenario_def roster_def players_def P1_def P2_def P3_def P4_def)
  have "avoid_pairs scenario = [(0, 3), (3, 0)]" by (simp add: scenario_defs)
  with unknown_avoid_target_is_ignored[where solve = "checking_solver valuation" and st = "[]", OF h] h
  show ?thesis by simp
qed

section \<open>Configuration errors\<close>

lemma name_to_idx_None_iff: "name_to_idx a n = None \<longleftrightarrow> n \<notin> set (players a)"
  by (metis name_to_idx_dom domIff)

lemma preset_constraints_Inl_iff:
  "(\<exists>e. preset_constraints a ps = Inl e) \<longleftrightarrow> list_ex (bad_preset a) ps"
proof (induction ps)
  case Nil
  show ?case by simp
next
  case (Cons q ps)
  obtain n k where q: "q = (n, k)" by (cases q)
  have dom: "name_to_idx a n = None \<longleftrightarrow> n \<notin> set (players a)"
    by (rule name_to_idx_None_iff)
  show ?case
  proof (cases "bad_preset a (n, k)")
    case True
    then show ?thesis using dom unfolding q
      by (cases "name_to_idx a n") (auto simp: bad_preset_def)
  next
    case False
    then obtain p where "name_to_idx a n = Some p" "1 \<le> k \<and> k \<le> num_teams a"
      using dom by (cases "name_to_idx a n") (auto simp: bad_preset_def)
    then show ?thesis using Cons False unfolding q
      by (cases "preset_constraints a ps") auto
  qed
qed

lemma preset_constraints_Inl_kind:
  "preset_constraints a ps = Inl e \<Longrightarrow> \<exists>ve. e = ValueError ve"
proof (induction ps)
  case Nil
  then show ?case by simp
next
  case (Cons q ps)
  obtain n k where q: "q = (n, k)" by (cases q)
  from Cons show ?case unfolding q
    by (auto split: option.splits if_splits sum.splits)
qed

lemma config_error_raised:
  assumes "captain_policy a \<notin> {''none'', ''at_least_one'', ''separate''} \<or>
           list_ex (bad_preset a) (presets a)"
  shows "\<exists>e. build_model a = Inl e \<and> build_and_solve solve a st = (Inl e, st) \<and>
           (e = ZeroDivisionError \<or> (\<exists>ve. e = ValueError ve)) \<and>
           (e = ZeroDivisionError \<longrightarrow> num_teams a = 0) \<and>
           (list_ex (bad_preset a) (presets a) \<longrightarrow> (\<exists>ve. e = ValueError ve))"
proof (cases "random_seed a < 0")
  case True
  then show ?thesis by (simp add: build_model_def build_and_solve_def)
next
  case seed: False
  show ?thesis
  proof (cases "preset_constraints a (presets a)")
    case (Inl e)
    then obtain ve where "e = ValueError ve" using preset_constraints_Inl_kind by blast
    then show ?thesis using seed Inl by (simp add: build_model_def build_and_solve_def)
  next
    case (Inr pcs)
    then have nb: "\<not> list_ex (bad_preset a) (presets a)"
      using preset_constraints_Inl_iff[of a "presets a"] by simp
    then have pol: "captain_policy a \<notin> {''none'', ''at_least_one'', ''separate''}"
      using assms by blast
    show ?thesis
    proof (cases "num_teams a = 0")
      case True
      then show ?thesis using seed Inr nb by (simp add: build_model_def build_and_solve_def)
    next
      case False
      then show ?thesis using seed Inr pol nb by (simp add: build_model_def build_and_solve_def)
    qed
  qed
qed


lemma role_weights_no_error:
  "(build_model (a\<lparr>role_weights := rw\<rparr>) = Inl e) = (build_model a = Inl e)"
proof -
  have "name_to_idx (a\<lparr>role_weights := rw\<rparr>) = name_to_idx a"
    by (simp add: name_to_idx_def players_def)
  then have "preset_constraints (a\<lparr>role_weights := rw\<rparr>) (presets a) = preset_constraints a (presets a)"
    by (rule preset_constraints_cong) simp
  then show ?thesis
    by (cases "preset_constraints a (presets a)") (simp_all add: build_model_def)
qed

text \<open>
  C7, as the code has it. An unknown captain-policy name, a preset naming a player that is
  not in the roster and a preset team index outside \<open>1..num_teams\<close> each make the
  pre-solve phase raise: \<^verbatim>\<open>build_and_solve\<close> returns that error whatever the solver is,
  with the solver's state untouched, and returns no dataframe and no diagnostics. The
  error is a \<^verbatim>\<open>ValueError\<close>, except that with \<open>num_teams = 0\<close> and valid presets the
  division of the target raises first. The role-weight map is never a cause of error:
  replacing it changes no error of the pre-solve phase, and a role without an entry gets
  the weight 1.
\<close>

theorem configuration_errors_before_solving:
  "(captain_policy a \<notin> {''none'', ''at_least_one'', ''separate''} \<or>
    list_ex (bad_preset a) (presets a) \<longrightarrow>
      (\<exists>e. build_model a = Inl e \<and> build_and_solve solve a st = (Inl e, st) \<and>
           (e = ZeroDivisionError \<or> (\<exists>ve. e = ValueError ve)) \<and>
           (e = ZeroDivisionError \<longrightarrow> num_teams a = 0) \<and>
           (list_ex (bad_preset a) (presets a) \<longrightarrow> (\<exists>ve. e = ValueError ve)))) \<and>
   (\<forall>rw e. (build_model (a\<lparr>role_weights := rw\<rparr>) = Inl e) = (build_model a = Inl e)) \<and>
   (\<forall>p. role_weights a (pos a p) = None \<longrightarrow> weight_by_role a p = 1)"
  using config_error_raised[of a solve st] role_weights_no_error[where a = a]
  by (simp add: weight_by_role_def)

theorem configuration_errors_before_solving_witness:
  "captain_policy (roster\<lparr>captain_policy := ''balanced''\<rparr>)
      \<notin> {''none'', ''at_least_one'', ''separate''} \<and>
   list_ex (bad_preset (roster\<lparr>presets := [(''P1'', 1), (''P9'', 2)]\<rparr>))
      (presets (roster\<lparr>presets := [(''P1'', 1), (''P9'', 2)]\<rparr>)) \<and>
   list_ex (bad_preset (roster\<lparr>presets := [(''P2'', 3)]\<rparr>))
      (presets (roster\<lparr>presets := [(''P2'', 3)]\<rparr>)) \<and>
   build_and_solve (checking_solver valuation) (roster\<lparr>captain_policy := ''balanced''\<rparr>) [] =
     (Inl (ValueError BadCaptainPolicy), []) \<and>
   build_and_solve (checking_solver valuation) (roster\<lparr>presets := [(''P1'', 1), (''P9'', 2)]\<rparr>) [] =
     (Inl (ValueError (PresetPlayerNotFound ''P9'')), []) \<and>
   build_and_solve (checking_solver valuation) (roster\<lparr>presets := [(''P2'', 3)]\<rparr>) [] =
     (Inl (ValueError (PresetTeamOutOfRange ''P2'' 2)), [])"
proof -
  let ?a1 = "roster\<lparr>captain_policy := ''balanced''\<rparr>"
  let ?a2 = "roster\<lparr>presets := [(''P1'', 1), (''P9'', 2)]\<rparr>"
  let ?a3 = "roster\<lparr>presets := [(''P2'', 3)]\<rparr>"
  have h1: "captain_policy ?a1 \<notin> {''none'', ''at_least_one'', ''separate''}"
    by (simp add: roster_def)
  have h2: "list_ex (bad_preset ?a2) (presets ?a2)"
    by (simp add: bad_preset_def scenario_defs)
  have h3: "list_ex (bad_preset ?a3) (presets ?a3)"
    by (simp add: bad_preset_def scenario_defs)
  have e1: "build_model ?a1 = Inl (ValueError BadCaptainPolicy)"
    by (simp add: scenario_defs)
  have e2: "build_model ?a2 = Inl (ValueError (PresetPlayerNotFound ''P9''))"
    by (simp add: scenario_defs)
  have e3: "build_model ?a3 = Inl (ValueError (PresetTeamOutOfRange ''P2'' 2))"
    by (simp add: scenario_defs)
  from configuration_errors_before_solving[of ?a1 "checking_solver valuation" "[]"] h1 e1
  have r1: "build_and_solve (checking_solver valuation) ?a1 [] = (Inl (ValueError BadCaptainPolicy), [])"
    by auto
  from configuration_errors_before_solving[of ?a2 "checking_solver valuation" "[]"] h2 e2
  have r2: "build_and_solve (checking_solver valuation) ?a2 [] =
      (Inl (ValueError (PresetPlayerNotFound ''P9'')), [])"
    by auto
  from configuration_errors_before_solving[of ?a3 "checking_solver valuation" "[]"] h3 e3
  have r3: "build_and_solve (checking_solver valuation) ?a3 [] =
      (Inl (ValueError (PresetTeamOutOfRange ''P2'' 2)), [])"
    by auto
  show ?thesis using h1 h2 h3 r1 r2 r3 by blast
qed

text \<open>
  C7 as stated fails for the role-weight map: with weights given for role 7 only, while
  the declared roles are 1 and 2, \<^verbatim>\<open>build_and_solve\<close> calls the solver and returns an
  assignment and diagnostics.
\<close>

theorem inconsistent_role_weights_accepted:
  "roles (roster\<lparr>role_weights := [7 \<mapsto> 2]\<rparr>) = [1, 2] \<and>
   dom (role_weights (roster\<lparr>role_weights := [7 \<mapsto> 2]\<rparr>)) = {7} \<and>
   sound_solver (checking_solver valuation) \<and>
   build_and_solve (checking_solver valuation) (roster\<lparr>role_weights := [7 \<mapsto> 2]\<rparr>) [] =
     (Inr ([with_team P1 1, with_team P2 2, with_team P3 2, with_team P4 1],
           \<lparr>diag_status = ''FEASIBLE'', diag_team_scores = [(1, 35), (2, 35)],
            diag_target_score = 35, diag_deviations = [(1, 0), (2, 0)],
            diag_captain_counts = [(1, 1), (2, 1)], diag_num_captains = 2,
            diag_feasibility_warnings = []\<rparr>),
      [\<lparr>max_time_in_seconds = 30, solver_random_seed = 42, num_search_workers = 8\<rparr>])"
proof -
  have "build_and_solve (checking_solver valuation) (roster\<lparr>role_weights := [7 \<mapsto> 2]\<rparr>) [] =
     (Inr ([with_team P1 1, with_team P2 2, with_team P3 2, with_team P4 1],
           \<lparr>diag_status = ''FEASIBLE'', diag_team_scores = [(1, 35), (2, 35)],
            diag_target_score = 35, diag_deviations = [(1, 0), (2, 0)],
            diag_captain_counts = [(1, 1), (2, 1)], diag_num_captains = 2,
            diag_feasibility_warnings = []\<rparr>),
      [\<lparr>max_time_in_seconds = 30, solver_random_seed = 42, num_search_workers = 8\<rparr>])"
    by (simp add: scenario_defs run_defs)
  moreover have "roles (roster\<lparr>role_weights := [7 \<mapsto> 2]\<rparr>) = [1, 2]"
    "dom (role_weights (roster\<lparr>role_weights := [7 \<mapsto> 2]\<rparr>)) = {7}"
    by (simp_all add: roster_def)
  ultimately show ?thesis using sound_checking_solver by blast
qed

section \<open>Solver parameters and scale factor\<close>

text \<open>
  C9, as the code has it. The scale factor, the time budget and the worker count are not
  arguments of \<^verbatim>\<open>build_and_solve\<close>: they are the constants 100, 30 seconds and 8. Of the
  solver's parameters only the random seed comes from the caller. Whatever the
  arguments, the solver is called with these parameters and the scores are scaled by 100.
\<close>

theorem solver_parameters_are_constants:
  "solver_params a =
     \<lparr>max_time_in_seconds = 30, solver_random_seed = random_seed a, num_search_workers = 8\<rparr> \<and>
   build_and_solve solve a st =
     build_and_solve (\<lambda>prm. solve \<lparr>max_time_in_seconds = 30, solver_random_seed = random_seed a,
        num_search_workers = 8\<rparr>) a st \<and>
   SCALE = 100 \<and>
   (\<forall>p. scaled_ws a p = np_round (weighted_skill a p * 100))"
proof -
  have prm: "solver_params a =
     \<lparr>max_time_in_seconds = 30, solver_random_seed = random_seed a, num_search_workers = 8\<rparr>"
    by (simp add: solver_params_def)
  have "build_and_solve solve a st =
     build_and_solve (\<lambda>prm. solve \<lparr>max_time_in_seconds = 30, solver_random_seed = random_seed a,
        num_search_workers = 8\<rparr>) a st"
    unfolding build_and_solve_def prm ..
  then show ?thesis using prm by (simp add: SCALE_def scaled_ws_def)
qed

theorem solver_parameters_are_constants_witness:
  "snd (build_and_solve (\<lambda>prm. checking_solver valuation
      \<lparr>max_time_in_seconds = 30, solver_random_seed = random_seed scenario,
       num_search_workers = 8\<rparr>) scenario []) =
     [\<lparr>max_time_in_seconds = 30, solver_random_seed = 42, num_search_workers = 8\<rparr>]"
proof -
  have "build_and_solve (\<lambda>prm. checking_solver valuation
      \<lparr>max_time_in_seconds = 30, solver_random_seed = random_seed scenario,
       num_search_workers = 8\<rparr>) scenario [] =
    build_and_solve (checking_solver valuation) scenario []"
    using solver_parameters_are_constants[of scenario "checking_solver valuation" "[]"] by simp
  then show ?thesis by (simp add: scenario_run)
qed

text \<open>
  C9 as stated fails: the arguments of \<open>scenario\<close> are all the arguments the function
  has, and the solver is called with 8 workers and 30 seconds, so a caller cannot pin
  the worker count to 1; the skill 10 (weight 1) enters the model as 1000.
\<close>

theorem solver_called_with_eight_workers:
  "snd (build_and_solve (checking_solver valuation) scenario []) =
     [\<lparr>max_time_in_seconds = 30, solver_random_seed = 42, num_search_workers = 8\<rparr>] \<and>
   num_search_workers (solver_params scenario) \<noteq> 1 \<and>
   skill scenario 0 = 10 \<and> weight_by_role scenario 0 = 1 \<and> scaled_ws scenario 0 = 1000"
  by (simp add: scenario_run) (simp add: scenario_defs solver_params_def)

section \<open>Scaling, target and reporting\<close>







section \<open>Conflicts\<close>

lemma avoid_pairs_bound:
  assumes "(pa, pb) \<in> set (avoid_pairs a)"
  shows "pa < P a \<and> pb < P a"
proof -
  from assms obtain row where "(pa, pb) \<in> set (avoid_pair a row)"
    by (auto simp: avoid_pairs_def)
  then obtain b where "name_to_idx a b = Some pb" "name_to_idx a (Name row) = Some pa"
    by (auto simp: avoid_pair_def split: option.splits)
  then show ?thesis using name_to_idx_SomeD by blast
qed

lemma avoid_pairs_complete:
  assumes "row \<in> set (df a)" "Avoid row = Some b" "b \<in> set (players a)"
  shows "\<exists>ia ib. name_to_idx a (Name row) = Some ia \<and> name_to_idx a b = Some ib \<and>
           avoid_pair a row = [(ia, ib)] \<and> (ia, ib) \<in> set (avoid_pairs a)"
proof -
  have "Name row \<in> set (players a)" using assms(1) by (simp add: players_def)
  then obtain ia where ia: "name_to_idx a (Name row) = Some ia"
    using name_to_idx_None_iff[of a "Name row"] by (cases "name_to_idx a (Name row)") auto
  obtain ib where ib: "name_to_idx a b = Some ib"
    using name_to_idx_None_iff[of a b] assms(3) by (cases "name_to_idx a b") auto
  have "avoid_pair a row = [(ia, ib)]" using ia ib assms(2) by (simp add: avoid_pair_def)
  then show ?thesis using ia ib assms(1) by (auto simp: avoid_pairs_def intro!: bexI[of _ row])
qed

lemma name_to_idx_Some_iff: "(\<exists>i. name_to_idx a n = Some i) \<longleftrightarrow> n \<in> set (players a)"
  using name_to_idx_None_iff[of a n] by (cases "name_to_idx a n") simp_all

lemma length_avoid_pair:
  "length (avoid_pair a row) =
     (if (\<exists>b. Avoid row = Some b \<and> b \<in> set (players a)) \<and> Name row \<in> set (players a)
      then 1 else 0)"
proof (cases "Avoid row")
  case None
  then show ?thesis by (simp add: avoid_pair_def)
next
  case (Some b)
  show ?thesis
  proof (cases "name_to_idx a b")
    case None
    then have "b \<notin> set (players a)" by (simp add: name_to_idx_None_iff)
    then show ?thesis using Some None by (simp add: avoid_pair_def)
  next
    case ib: (Some ib)
    then have b: "b \<in> set (players a)" using name_to_idx_Some_iff by blast
    show ?thesis
    proof (cases "name_to_idx a (Name row)")
      case None
      then have "Name row \<notin> set (players a)" by (simp add: name_to_idx_None_iff)
      then show ?thesis using Some ib None by (simp add: avoid_pair_def)
    next
      case ia: (Some ia)
      then have "Name row \<in> set (players a)" using name_to_idx_Some_iff by blast
      then show ?thesis using Some ib ia b by (simp add: avoid_pair_def)
    qed
  qed
qed

lemma length_avoid_pairs:
  "length (avoid_pairs a) =
     length (filter (\<lambda>row. \<exists>b. Avoid row = Some b \<and> b \<in> set (players a)) (df a))"
proof -
  have "\<And>rows. set rows \<subseteq> set (df a) \<Longrightarrow>
      length (concat (map (avoid_pair a) rows)) =
      length (filter (\<lambda>row. \<exists>b. Avoid row = Some b \<and> b \<in> set (players a)) rows)"
  proof -
    fix rows show "set rows \<subseteq> set (df a) \<Longrightarrow>
      length (concat (map (avoid_pair a) rows)) =
      length (filter (\<lambda>row. \<exists>b. Avoid row = Some b \<and> b \<in> set (players a)) rows)"
    proof (induction rows)
      case Nil
      show ?case by simp
    next
      case (Cons r rows)
      then have "Name r \<in> set (players a)" by (auto simp: players_def)
      then show ?case using Cons by (simp add: length_avoid_pair)
    qed
  qed
  then show ?thesis by (simp add: avoid_pairs_def)
qed

lemma distinct_conflict_terms: "distinct (conflict_terms a)"
proof -
  have "\<And>is. distinct is \<Longrightarrow> distinct (concat (map (\<lambda>i. map (\<lambda>t. Y i t) (team_ids a)) is))"
  proof -
    fix "is" :: "nat list"
    show "distinct is \<Longrightarrow> distinct (concat (map (\<lambda>i. map (\<lambda>t. Y i t) (team_ids a)) is))"
    proof (induction "is")
      case Nil
      show ?case by simp
    next
      case (Cons i "is")
      have "distinct (map (\<lambda>t. Y i t) (team_ids a))"
        by (simp add: distinct_map team_ids_def inj_on_def)
      then show ?case using Cons by auto
    qed
  qed
  then show ?thesis by (simp add: conflict_terms_def)
qed

lemma length_conflict_terms:
  "length (conflict_terms a) = length (avoid_pairs a) * nat (num_teams a)"
  by (simp add: conflict_terms_def length_concat comp_def team_ids_def sum_list_triv)

lemma conflict_constraints_mem:
  assumes "i < length (avoid_pairs a)" "avoid_pairs a ! i = (pa, pb)" "t < nat (num_teams a)"
  shows "LeC (V (Y i t)) (V (X pa t)) \<in> set (conflict_constraints a)"
    and "LeC (V (Y i t)) (V (X pb t)) \<in> set (conflict_constraints a)"
    and "GeC (V (Y i t)) (Lin [(1, X pa t), (1, X pb t)] (- 1)) \<in> set (conflict_constraints a)"
proof -
  have e: "(i, pa, pb) \<in> set (enumerate 0 (avoid_pairs a))"
    using assms(1,2) by (simp add: in_set_enumerate_eq)
  have t: "t \<in> set (team_ids a)" using assms(3) by (simp add: team_ids_def)
  show "LeC (V (Y i t)) (V (X pa t)) \<in> set (conflict_constraints a)"
    unfolding conflict_constraints_def using e t by (fastforce intro!: bexI[of _ "(i, pa, pb)"] bexI[of _ t])
  show "LeC (V (Y i t)) (V (X pb t)) \<in> set (conflict_constraints a)"
    unfolding conflict_constraints_def using e t by (fastforce intro!: bexI[of _ "(i, pa, pb)"] bexI[of _ t])
  show "GeC (V (Y i t)) (Lin [(1, X pa t), (1, X pb t)] (- 1)) \<in> set (conflict_constraints a)"
    unfolding conflict_constraints_def using e t by (fastforce intro!: bexI[of _ "(i, pa, pb)"] bexI[of _ t])
qed

lemma Y_mem:
  assumes "i < length (avoid_pairs a)" "t < nat (num_teams a)"
  shows "Y i t \<in> set (conflict_terms a)"
  using assms by (auto simp: conflict_terms_def team_ids_def intro!: bexI[of _ i])

lemma coplacement_is_and:
  assumes bm: "build_model a = Inr (m, w)" and sat: "sat m v"
    and i: "i < length (avoid_pairs a)" and ap: "avoid_pairs a ! i = (pa, pb)"
    and t: "t < nat (num_teams a)"
  shows "v (Y i t) = (if v (X pa t) = 1 \<and> v (X pb t) = 1 then 1 else 0)"
proof -
  have "(pa, pb) \<in> set (avoid_pairs a)" using i ap by (metis nth_mem)
  then have "pa < P a" "pb < P a" using avoid_pairs_bound by blast+
  then have xa: "v (X pa t) = 0 \<or> v (X pa t) = 1" and xb: "v (X pb t) = 0 \<or> v (X pb t) = 1"
    using X_bool[OF bm sat _ t] by blast+
  have "(Y i t, 0, 1) \<in> set (y_vars a)" using Y_mem[OF i t] by (simp add: y_vars_def)
  then have "(Y i t, 0, 1) \<in> set (variables m)" using bm by (auto elim!: build_model_InrD)
  from sat_domain[OF sat this] have y: "0 \<le> v (Y i t)" "v (Y i t) \<le> 1" by simp_all
  have sub: "set (conflict_constraints a) \<subseteq> set (constraints m)"
    using bm by (auto elim!: build_model_InrD)
  have "holds v (LeC (V (Y i t)) (V (X pa t)))" "holds v (LeC (V (Y i t)) (V (X pb t)))"
    "holds v (GeC (V (Y i t)) (Lin [(1, X pa t), (1, X pb t)] (- 1)))"
    using conflict_constraints_mem[OF i ap t] sub sat_holds[OF sat] by blast+
  then have "v (Y i t) \<le> v (X pa t)" "v (Y i t) \<le> v (X pb t)"
    "v (X pa t) + v (X pb t) - 1 \<le> v (Y i t)"
    by simp_all
  then show ?thesis using xa xb y by auto
qed

lemma sum_list_concat_int: "sum_list (concat xss) = sum_list (map sum_list (xss :: int list list))"
  by (induction xss) simp_all

lemma conflict_sum:
  assumes bm: "build_model a = Inr (m, w)" and sat: "sat m v"
  shows "sum_list (map v (conflict_terms a)) =
     (\<Sum>i\<leftarrow>[0..<length (avoid_pairs a)]. \<Sum>t\<leftarrow>team_ids a.
        if v (X (fst (avoid_pairs a ! i)) t) = 1 \<and> v (X (snd (avoid_pairs a ! i)) t) = 1
        then 1 else 0)"
proof -
  have "sum_list (map v (conflict_terms a)) =
     (\<Sum>i\<leftarrow>[0..<length (avoid_pairs a)]. \<Sum>t\<leftarrow>team_ids a. v (Y i t))"
    by (simp add: conflict_terms_def map_concat sum_list_concat_int comp_def)
  also have "\<dots> = (\<Sum>i\<leftarrow>[0..<length (avoid_pairs a)]. \<Sum>t\<leftarrow>team_ids a.
        if v (X (fst (avoid_pairs a ! i)) t) = 1 \<and> v (X (snd (avoid_pairs a ! i)) t) = 1
        then 1 else 0)"
  proof (intro arg_cong[where f = sum_list] map_cong refl)
    fix i t assume "i \<in> set [0..<length (avoid_pairs a)]" "t \<in> set (team_ids a)"
    then have i: "i < length (avoid_pairs a)" and t: "t < nat (num_teams a)"
      by (simp_all add: team_ids_def)
    have "avoid_pairs a ! i = (fst (avoid_pairs a ! i), snd (avoid_pairs a ! i))" by simp
    from coplacement_is_and[OF bm sat i this t]
    show "v (Y i t) = (if v (X (fst (avoid_pairs a ! i)) t) = 1 \<and>
        v (X (snd (avoid_pairs a ! i)) t) = 1 then 1 else 0)" .
  qed
  finally show ?thesis .
qed


text \<open>
  C5. Every row whose \<^verbatim>\<open>Avoid\<close> names a roster player yields one entry of
  \<^verbatim>\<open>avoid_pairs\<close>, and the list has exactly one entry per such row. For the \<open>i\<close>-th
  entry \<open>(pa, pb)\<close> and every team \<open>t\<close> the model declares the boolean \<open>Y i t\<close>, distinct
  from the variable of every other entry and team, and holds the three inequalities
  \<open>Y i t \<le> X pa t\<close>, \<open>Y i t \<le> X pb t\<close>, \<open>Y i t \<ge> X pa t + X pb t - 1\<close>; in every
  valuation that satisfies the model \<open>Y i t\<close> is 1 exactly when both indicators are 1.
  The sum of the conflict terms, which the objective multiplies by
  \<^verbatim>\<open>int(conflict_weight * 100)\<close> when the weight is not zero, is the number of (entry,
  team) combinations whose two players share the team. When the reverse pair is an
  entry too, it has a variable of its own in that sum, and a shared team counts 2.
\<close>

theorem conflict_coplacement_variables:
  assumes "build_model a = Inr (m, w)" and "i < length (avoid_pairs a)"
    and "avoid_pairs a ! i = (pa, pb)" and "t < nat (num_teams a)"
  shows "(Y i t, 0, 1) \<in> set (variables m) \<and>
    Y i t \<in> set (conflict_terms a) \<and> distinct (conflict_terms a) \<and>
    length (conflict_terms a) = length (avoid_pairs a) * nat (num_teams a) \<and>
    length (avoid_pairs a) =
      length (filter (\<lambda>row. \<exists>b. Avoid row = Some b \<and> b \<in> set (players a)) (df a)) \<and>
    (\<forall>row\<in>set (df a). \<forall>b. Avoid row = Some b \<and> b \<in> set (players a) \<longrightarrow>
       (\<exists>ia ib. name_to_idx a (Name row) = Some ia \<and> name_to_idx a b = Some ib \<and>
          (ia, ib) \<in> set (avoid_pairs a))) \<and>
    LeC (V (Y i t)) (V (X pa t)) \<in> set (constraints m) \<and>
    LeC (V (Y i t)) (V (X pb t)) \<in> set (constraints m) \<and>
    GeC (V (Y i t)) (Lin [(1, X pa t), (1, X pb t)] (- 1)) \<in> set (constraints m) \<and>
    (conflict_weight a \<noteq> 0 \<longrightarrow>
       (of_int (py_int (conflict_weight a * 100)), conflict_terms a) \<in> set (objective m)) \<and>
    (\<forall>v. sat m v \<longrightarrow>
       v (Y i t) = (if v (X pa t) = 1 \<and> v (X pb t) = 1 then 1 else 0) \<and>
       sum_list (map v (conflict_terms a)) =
         (\<Sum>i\<leftarrow>[0..<length (avoid_pairs a)]. \<Sum>t\<leftarrow>[0..<nat (num_teams a)].
            if v (X (fst (avoid_pairs a ! i)) t) = 1 \<and> v (X (snd (avoid_pairs a ! i)) t) = 1
            then 1 else 0) \<and>
       (\<forall>j<length (avoid_pairs a).
          j \<noteq> i \<and> avoid_pairs a ! j = (pb, pa) \<and> v (X pa t) = 1 \<and> v (X pb t) = 1 \<longrightarrow>
          Y j t \<noteq> Y i t \<and> Y j t \<in> set (conflict_terms a) \<and> v (Y i t) + v (Y j t) = 2))"
proof -
  note bm = assms(1) and i = assms(2) and ap = assms(3) and t = assms(4)
  have ymem: "Y i t \<in> set (conflict_terms a)" by (rule Y_mem[OF i t])
  have "(Y i t, 0, 1) \<in> set (y_vars a)" using ymem by (simp add: y_vars_def)
  then have A: "(Y i t, 0, 1) \<in> set (variables m)" using bm by (auto elim!: build_model_InrD)
  have B: "\<forall>row\<in>set (df a). \<forall>b. Avoid row = Some b \<and> b \<in> set (players a) \<longrightarrow>
       (\<exists>ia ib. name_to_idx a (Name row) = Some ia \<and> name_to_idx a b = Some ib \<and>
          (ia, ib) \<in> set (avoid_pairs a))"
    using avoid_pairs_complete[of _ a] by blast
  have sub: "set (conflict_constraints a) \<subseteq> set (constraints m)"
    using bm by (auto elim!: build_model_InrD)
  have C: "LeC (V (Y i t)) (V (X pa t)) \<in> set (constraints m)"
    "LeC (V (Y i t)) (V (X pb t)) \<in> set (constraints m)"
    "GeC (V (Y i t)) (Lin [(1, X pa t), (1, X pb t)] (- 1)) \<in> set (constraints m)"
    using conflict_constraints_mem[OF i ap t] sub by blast+
  have ne: "conflict_terms a \<noteq> []" using ymem by auto
  have obj: "objective m = obj_terms a" using bm by (rule build_model_InrD)
  have D: "conflict_weight a \<noteq> 0 \<longrightarrow>
       (of_int (py_int (conflict_weight a * 100)), conflict_terms a) \<in> set (objective m)"
    using ne by (simp add: obj obj_terms_def SCALE_def)
  have E: "v (Y i t) = (if v (X pa t) = 1 \<and> v (X pb t) = 1 then 1 else 0) \<and>
       sum_list (map v (conflict_terms a)) =
         (\<Sum>i\<leftarrow>[0..<length (avoid_pairs a)]. \<Sum>t\<leftarrow>[0..<nat (num_teams a)].
            if v (X (fst (avoid_pairs a ! i)) t) = 1 \<and> v (X (snd (avoid_pairs a ! i)) t) = 1
            then 1 else 0) \<and>
       (\<forall>j<length (avoid_pairs a).
          j \<noteq> i \<and> avoid_pairs a ! j = (pb, pa) \<and> v (X pa t) = 1 \<and> v (X pb t) = 1 \<longrightarrow>
          Y j t \<noteq> Y i t \<and> Y j t \<in> set (conflict_terms a) \<and> v (Y i t) + v (Y j t) = 2)"
    if sat: "sat m v" for v
  proof (intro conjI allI impI)
    show yi: "v (Y i t) = (if v (X pa t) = 1 \<and> v (X pb t) = 1 then 1 else 0)"
      by (rule coplacement_is_and[OF bm sat i ap t])
    show "sum_list (map v (conflict_terms a)) =
         (\<Sum>i\<leftarrow>[0..<length (avoid_pairs a)]. \<Sum>t\<leftarrow>[0..<nat (num_teams a)].
            if v (X (fst (avoid_pairs a ! i)) t) = 1 \<and> v (X (snd (avoid_pairs a ! i)) t) = 1
            then 1 else 0)"
      using conflict_sum[OF bm sat] by (simp add: team_ids_def)
    fix j
    assume j: "j < length (avoid_pairs a)"
      and h: "j \<noteq> i \<and> avoid_pairs a ! j = (pb, pa) \<and> v (X pa t) = 1 \<and> v (X pb t) = 1"
    show "Y j t \<noteq> Y i t" using h by simp
    show "Y j t \<in> set (conflict_terms a)" by (rule Y_mem[OF j t])
    have "v (Y j t) = 1" using coplacement_is_and[OF bm sat j _ t, of pb pa] h by simp
    then show "v (Y i t) + v (Y j t) = 2" using yi h by simp
  qed
  show ?thesis
    using A ymem distinct_conflict_terms[of a] length_conflict_terms[of a] length_avoid_pairs[of a]
      B C D E by blast
qed

theorem conflict_coplacement_variables_witness:
  "avoid_pairs scenario = [(0, 3), (3, 0)] \<and>
   conflict_terms scenario = [Y 0 0, Y 0 1, Y 1 0, Y 1 1] \<and>
   (\<exists>m w. build_model scenario = Inr (m, w) \<and> sat m valuation \<and>
      objective m = [(1, [D 0, D 1]), (100, [Y 0 0, Y 0 1, Y 1 0, Y 1 1])] \<and>
      (100, conflict_terms scenario) \<in> set (objective m)) \<and>
   valuation (X 0 0) = 1 \<and> valuation (X 3 0) = 1 \<and>
   valuation (Y 0 0) + valuation (Y 1 0) = 2 \<and>
   sum_list (map valuation (conflict_terms scenario)) = 2"
proof -
  have ap: "avoid_pairs scenario = [(0, 3), (3, 0)]" by (simp add: scenario_defs)
  have ct: "conflict_terms scenario = [Y 0 0, Y 0 1, Y 1 0, Y 1 1]"
    by (simp add: conflict_terms_def ap) (simp add: scenario_defs)
  obtain m w where bm: "build_model scenario = Inr (m, w)" by (simp add: scenario_defs)
  have sat: "sat m valuation" using bm by (auto simp: scenario_defs)
  have obj: "objective m = [(1, [D 0, D 1]), (100, [Y 0 0, Y 0 1, Y 1 0, Y 1 1])]"
    using bm by (auto simp: scenario_defs)
  have i: "0 < length (avoid_pairs scenario)" and p: "avoid_pairs scenario ! 0 = (0, 3)"
    and j: "1 < length (avoid_pairs scenario)" "avoid_pairs scenario ! 1 = (3, 0)"
    and t: "0 < nat (num_teams scenario)" and cw: "conflict_weight scenario \<noteq> 0"
    by (simp_all add: ap) (simp_all add: scenario_def roster_def)
  have x: "valuation (X 0 0) = 1" "valuation (X 3 0) = 1" by simp_all
  from conflict_coplacement_variables[OF bm i p t] sat j x cw
  have "valuation (Y 0 0) + valuation (Y 1 0) = 2"
    and "(of_int (py_int (conflict_weight scenario * 100)), conflict_terms scenario)
       \<in> set (objective m)"
    by (blast, blast)
  then show ?thesis using ap ct bm sat obj x by (simp add: scenario_def roster_def py_int_def)
qed

section \<open>Deviations\<close>

lemma deviation_ge_abs:
  assumes bm: "build_model a = Inr (m, w)" and sat: "sat m v" and t: "t < nat (num_teams a)"
  shows "\<bar>v (S t) - target a\<bar> \<le> v (D t)" and "v (Diff t) = v (S t) - target a"
proof -
  have mem: "EqC (V (Diff t)) (Lin [(1, S t)] (- target a)) \<in> set (deviation_constraints a)"
    "GeC (V (D t)) (V (Diff t)) \<in> set (deviation_constraints a)"
    "GeC (V (D t)) (Lin [(- 1, Diff t)] 0) \<in> set (deviation_constraints a)"
    using t by (auto simp: deviation_constraints_def team_ids_def)
  have sub: "set (deviation_constraints a) \<subseteq> set (constraints m)"
    using bm by (auto elim!: build_model_InrD)
  have "holds v (EqC (V (Diff t)) (Lin [(1, S t)] (- target a)))"
    "holds v (GeC (V (D t)) (V (Diff t)))"
    "holds v (GeC (V (D t)) (Lin [(- 1, Diff t)] 0))"
    using mem sub sat_holds[OF sat] by blast+
  then show "\<bar>v (S t) - target a\<bar> \<le> v (D t)" and "v (Diff t) = v (S t) - target a"
    by simp_all
qed

lemma D_domain:
  assumes bm: "build_model a = Inr (m, w)" and "(D t, lb, ub) \<in> set (variables m)"
  shows "lb = 0 \<and> ub = 1000000000"
proof -
  have "(D t, lb, ub) \<in> set (x_vars a @ s_vars a @ d_vars a @ diff_vars a @ y_vars a @
       c_vars a @ capt_vars (captain_policy_part a))"
    using assms by (auto elim!: build_model_InrD)
  moreover have "(D t, lb, ub) \<notin> set (capt_vars (captain_policy_part a))"
    by (auto simp: captain_policy_part_def Let_def)
  ultimately show ?thesis
    by (auto simp: x_vars_def s_vars_def d_vars_def diff_vars_def y_vars_def c_vars_def
        conflict_terms_def)
qed


lemma preset_constraints_shape:
  "preset_constraints a ps = Inr cs \<Longrightarrow> c \<in> set cs \<Longrightarrow> \<exists>p tt k. c = EqC (V (X p tt)) (Const k)"
proof (induction ps arbitrary: cs)
  case Nil
  then show ?case by simp
next
  case (Cons q ps)
  obtain n k where q: "q = (n, k)" by (cases q)
  from Cons.prems(1) q obtain p cs' where
    rest: "preset_constraints a ps = Inr cs'" and
    cs: "cs = map (\<lambda>tt. EqC (V (X p tt)) (Const (if tt = nat (k - 1) then 1 else 0)))
                (team_ids a) @ cs'"
    by (auto split: option.splits if_splits sum.splits)
  from Cons.prems(2) have "c \<in> set cs' \<or>
      c \<in> set (map (\<lambda>tt. EqC (V (X p tt)) (Const (if tt = nat (k - 1) then 1 else 0))) (team_ids a))"
    unfolding cs by auto
  then show ?case
  proof
    assume "c \<in> set cs'"
    then show ?thesis by (rule Cons.IH[OF rest])
  next
    assume "c \<in> set (map (\<lambda>tt. EqC (V (X p tt)) (Const (if tt = nat (k - 1) then 1 else 0))) (team_ids a))"
    then obtain tt where "c = EqC (V (X p tt)) (Const (if tt = nat (k - 1) then 1 else 0))"
      by (auto simp del: if_split)
    then show ?thesis by (intro exI)
  qed
qed

lemma lower_deviation_sat:
  assumes bm: "build_model a = Inr (m, w)" and sat: "sat m v" and t: "t < nat (num_teams a)"
  shows "sat m (v(D t := \<bar>v (S t) - target a\<bar>))"
proof -
  define z where "z = \<bar>v (S t) - target a\<bar>"
  define v' where "v' = v(D t := z)"
  have zle: "z \<le> v (D t)" and z0: "0 \<le> z" and zdiff: "v (Diff t) \<le> z" "- v (Diff t) \<le> z"
    using deviation_ge_abs[OF bm sat t] by (simp_all add: z_def)
  from bm obtain pcs where pcs: "preset_constraints a (presets a) = Inr pcs"
    and cm: "constraints m = one_team_constraints a @ role_constraints a @ pcs @
       score_constraints a @ deviation_constraints a @ conflict_constraints a @
       captain_count_constraints a @ capt_constraints (captain_policy_part a)"
    by (rule build_model_InrD)
  have dom: "in_domain v' e" if e: "e \<in> set (variables m)" for e
  proof -
    obtain x lb ub where x: "e = (x, lb, ub)" by (cases e)
    have old: "lb \<le> v x \<and> v x \<le> ub" using sat_domain[OF sat] e x by blast
    show ?thesis
    proof (cases "x = D t")
      case True
      then have "lb = 0 \<and> ub = 1000000000" using D_domain[OF bm] e x by blast
      then show ?thesis using True old zle z0 x by (simp add: v'_def)
    next
      case False
      then show ?thesis using old x by (simp add: v'_def)
    qed
  qed
  have old: "\<And>c. c \<in> set (constraints m) \<Longrightarrow> holds v c" using sat_holds[OF sat] .
  have c1: "holds v' c" if "c \<in> set (one_team_constraints a)" for c
    using that old[of c] cm by (auto simp: one_team_constraints_def v'_def comp_def)
  have c2: "holds v' c" if "c \<in> set (role_constraints a)" for c
    using that old[of c] cm by (auto simp: role_constraints_def v'_def comp_def)
  have c3: "holds v' c" if cin: "c \<in> set pcs" for c
  proof -
    obtain p tt k where "c = EqC (V (X p tt)) (Const k)"
      using preset_constraints_shape[OF pcs cin] by blast
    then show ?thesis using cin old[of c] cm by (simp add: v'_def)
  qed
  have c4: "holds v' c" if "c \<in> set (score_constraints a)" for c
    using that old[of c] cm by (auto simp: score_constraints_def v'_def comp_def)
  have c5: "holds v' c" if cin: "c \<in> set (deviation_constraints a)" for c
  proof -
    from cin obtain t' where t': "t' \<in> set (team_ids a)" and
      c: "c = EqC (V (Diff t')) (Lin [(1, S t')] (- target a)) \<or>
          c = GeC (V (D t')) (V (Diff t')) \<or> c = GeC (V (D t')) (Lin [(- 1, Diff t')] 0)"
      by (auto simp: deviation_constraints_def)
    have h: "holds v c" using cin old[of c] cm by simp
    show ?thesis
    proof (cases "t' = t")
      case True
      then show ?thesis using c h zdiff by (auto simp: v'_def)
    next
      case False
      then show ?thesis using c h by (auto simp: v'_def)
    qed
  qed
  have c6: "holds v' c" if "c \<in> set (conflict_constraints a)" for c
    using that old[of c] cm by (auto simp: conflict_constraints_def v'_def comp_def)
  have c7: "holds v' c" if "c \<in> set (captain_count_constraints a)" for c
    using that old[of c] cm by (auto simp: captain_count_constraints_def v'_def comp_def)
  have c8: "holds v' c" if "c \<in> set (capt_constraints (captain_policy_part a))" for c
  proof -
    have h: "holds v c" using that old[of c] cm by simp
    from that have "(\<exists>t'. c = GeC (V (C t')) (Const 1)) \<or> (\<exists>t'. c = GeC (V (M t')) (Lin [(- 1, C t')] 1))
        \<or> (\<exists>t'. c = LeC (V (C t')) (Const 1)) \<or> (\<exists>t'. c = GeC (V (K t')) (Lin [(1, C t')] (- 1)))"
      by (auto simp: captain_policy_part_def Let_def split: if_splits)
    then show ?thesis using h by (auto simp: v'_def)
  qed
  have "holds v' c" if "c \<in> set (constraints m)" for c
    using that c1 c2 c3 c4 c5 c6 c7 c8 unfolding cm by auto
  then show ?thesis using dom unfolding sat_def list_all_iff v'_def z_def by blast
qed


lemma map_upd_notin: "x \<notin> set xs \<Longrightarrow> map (v(x := z)) xs = map v xs"
  by (induction xs) auto

lemma sum_list_upd:
  "distinct xs \<Longrightarrow> x \<in> set xs \<Longrightarrow>
     sum_list (map (v(x := z)) xs) = sum_list (map v xs) - v x + (z :: int)"
proof (induction xs)
  case Nil
  then show ?case by simp
next
  case (Cons y ys)
  show ?case
  proof (cases "x = y")
    case True
    then have "x \<notin> set ys" using Cons.prems(1) by simp
    then have m: "map (v(x := z)) ys = map v ys" by (rule map_upd_notin)
    have "sum_list (map (v(x := z)) (x # ys)) = z + sum_list (map (v(x := z)) ys)" by simp
    also have "\<dots> = z + sum_list (map v ys)" by (simp only: m)
    finally show ?thesis using True by (simp del: fun_upd_apply)
  next
    case False
    then show ?thesis using Cons by simp
  qed
qed

lemma lower_deviation_objective:
  assumes bm: "build_model a = Inr (m, w)" and t: "t < nat (num_teams a)"
    and bw: "balance_weight a \<noteq> 0"
  shows "objective_value m (v(D t := z)) =
     objective_value m v - balance_weight a * of_int (v (D t) - z)"
proof -
  have obj: "objective m = obj_terms a" using bm by (rule build_model_InrD)
  have d: "sum_list (map (v(D t := z)) (map D (team_ids a))) =
      sum_list (map v (map D (team_ids a))) - v (D t) + z"
    using t by (intro sum_list_upd) (auto simp: distinct_map team_ids_def inj_on_def)
  have y: "map (v(D t := z)) (conflict_terms a) = map v (conflict_terms a)"
    by (intro map_upd_notin) (auto simp: conflict_terms_def)
  have c: "map (v(D t := z)) (captain_penalty_terms (captain_policy_part a)) =
      map v (captain_penalty_terms (captain_policy_part a))"
    by (intro map_upd_notin) (auto simp: captain_policy_part_def Let_def)
  show ?thesis
    unfolding objective_value_def obj obj_terms_def
    using bw by (simp add: d y c algebra_simps del: map_map fun_upd_apply)
qed

lemma sound_oracle_solver:
  assumes "sat m0 v0" and "\<And>v'. sat m0 v' \<Longrightarrow> objective_value m0 v0 \<le> objective_value m0 v'"
  shows "sound_solver (oracle_solver m0 s0 v0)"
  using assms by (simp add: sound_solver_def oracle_solver_def)

text \<open>
  C3, as the code has it. The two inequalities make the deviation variable at least the
  absolute difference: in every returned diagnostics the deviation of a team is at least
  the absolute difference between the team's reported score and the reported target.
  The two are equal when the status is optimal and the balance weight is positive, the
  solver's optimum being a minimum of the objective over the valuations that satisfy the
  model.
\<close>

theorem deviation_at_least_absolute_difference:
  assumes "sound_solver solve" and "build_and_solve solve a st = (Inr (out, diag), st')"
    and "t < nat (num_teams a)"
  shows "fst (diag_team_scores diag ! t) = int t + 1 \<and>
    fst (diag_deviations diag ! t) = int t + 1 \<and>
    \<bar>snd (diag_team_scores diag ! t) - diag_target_score diag\<bar> \<le> snd (diag_deviations diag ! t) \<and>
    (diag_status diag = ''OPTIMAL'' \<and> 0 < balance_weight a \<longrightarrow>
       snd (diag_deviations diag ! t) = \<bar>snd (diag_team_scores diag ! t) - diag_target_score diag\<bar>)"
proof -
  from assms(2) obtain m w stat v ks where
    bm: "build_model a = Inr (m, w)" and
    sv: "solve (solver_params a) m st = ((stat, v), st')" and
    ok: "stat = OPTIMAL \<or> stat = FEASIBLE" and
    diag: "diag = make_diagnostics a stat v w"
    by (rule build_and_solve_InrD)
  have sat: "sat m v" by (rule sound_solverD(1)[OF assms(1) sv ok])
  note t = assms(3)
  have sc: "diag_team_scores diag ! t = (int t + 1, of_int (v (S t)) / 100)"
    and dv: "diag_deviations diag ! t = (int t + 1, of_int (v (D t)) / 100)"
    and tg: "diag_target_score diag = of_int (target a) / 100"
    using t by (simp_all add: diag make_diagnostics_def team_ids_def SCALE_def)
  have ge: "\<bar>v (S t) - target a\<bar> \<le> v (D t)" by (rule deviation_ge_abs(1)[OF bm sat t])
  have conv: "\<bar>(of_int (v (S t)) / 100 :: rat) - of_int (target a) / 100\<bar>
      = of_int \<bar>v (S t) - target a\<bar> / 100"
    by (simp add: diff_divide_distrib[symmetric] abs_divide del: of_int_diff)
  have A: "\<bar>snd (diag_team_scores diag ! t) - diag_target_score diag\<bar> \<le> snd (diag_deviations diag ! t)"
    unfolding sc dv tg snd_conv conv using ge by (simp add: divide_right_mono)
  have B: "snd (diag_deviations diag ! t) = \<bar>snd (diag_team_scores diag ! t) - diag_target_score diag\<bar>"
    if opt: "diag_status diag = ''OPTIMAL''" and bw: "0 < balance_weight a"
  proof -
    have stat: "stat = OPTIMAL" using opt by (simp add: diag make_diagnostics_def split: if_splits)
    let ?z = "\<bar>v (S t) - target a\<bar>"
    have sat': "sat m (v(D t := ?z))" by (rule lower_deviation_sat[OF bm sat t])
    have "objective_value m v \<le> objective_value m (v(D t := ?z))"
      by (rule sound_solverD(2)[OF assms(1) sv stat sat'])
    also have "\<dots> = objective_value m v - balance_weight a * of_int (v (D t) - ?z)"
      using bw by (intro lower_deviation_objective[OF bm t]) simp
    finally have "balance_weight a * of_int (v (D t) - ?z) \<le> 0" by simp
    then have "(of_int (v (D t) - ?z) :: rat) \<le> 0"
      using bw by (simp add: mult_le_0_iff)
    then have "v (D t) \<le> ?z" by (simp only: of_int_le_0_iff)
    then have "v (D t) = ?z" using ge by simp
    then show ?thesis unfolding sc dv tg snd_conv conv by simp
  qed
  show ?thesis using sc dv A B by simp
qed


theorem deviation_at_least_absolute_difference_witness:
  "sound_solver (oracle_solver (model_of roster) OPTIMAL valuation) \<and>
   0 < nat (num_teams roster) \<and> 0 < balance_weight roster \<and>
   (\<exists>out diag calls.
      build_and_solve (oracle_solver (model_of roster) OPTIMAL valuation) roster [] =
        (Inr (out, diag), calls) \<and>
      diag_status diag = ''OPTIMAL'' \<and>
      diag_team_scores diag = [(1, 35), (2, 35)] \<and> diag_target_score diag = 35 \<and>
      snd (diag_deviations diag ! 0) = \<bar>snd (diag_team_scores diag ! 0) - diag_target_score diag\<bar>)"
proof -
  obtain m w where bm: "build_model roster = Inr (m, w)" and w: "w = []"
    by (simp add: scenario_defs)
  have mo: "model_of roster = m" by (simp add: model_of_def bm)
  have sat: "sat m valuation" using bm by (auto simp: scenario_defs)
  have obj: "objective m = [(1, [D 0, D 1])]" using bm by (auto simp: scenario_defs)
  have dm: "(D 0, 0, 1000000000) \<in> set (variables m)" "(D 1, 0, 1000000000) \<in> set (variables m)"
    using bm by (auto simp: scenario_defs)
  have opt: "objective_value m valuation \<le> objective_value m v'" if "sat m v'" for v'
    using sat_domain[OF that dm(1)] sat_domain[OF that dm(2)]
    by (simp add: objective_value_def obj)
  have sound: "sound_solver (oracle_solver m OPTIMAL valuation)"
    using sat opt by (rule sound_oracle_solver)
  have ex: "extract_solution roster OPTIMAL valuation [] =
     Inr ([with_team P1 1, with_team P2 2, with_team P3 2, with_team P4 1],
           \<lparr>diag_status = ''OPTIMAL'', diag_team_scores = [(1, 35), (2, 35)],
            diag_target_score = 35, diag_deviations = [(1, 0), (2, 0)],
            diag_captain_counts = [(1, 1), (2, 1)], diag_num_captains = 2,
            diag_feasibility_warnings = []\<rparr>)"
    by (simp add: scenario_defs run_defs)
  have run: "build_and_solve (oracle_solver m OPTIMAL valuation) roster [] =
     (Inr ([with_team P1 1, with_team P2 2, with_team P3 2, with_team P4 1],
           \<lparr>diag_status = ''OPTIMAL'', diag_team_scores = [(1, 35), (2, 35)],
            diag_target_score = 35, diag_deviations = [(1, 0), (2, 0)],
            diag_captain_counts = [(1, 1), (2, 1)], diag_num_captains = 2,
            diag_feasibility_warnings = []\<rparr>), [solver_params roster])"
    by (simp add: build_and_solve_def bm w oracle_solver_def ex)
  have t: "0 < nat (num_teams roster)" and bw: "0 < balance_weight roster"
    by (simp_all add: roster_def)
  from deviation_at_least_absolute_difference[OF sound run t] bw
  have "snd (diag_deviations \<lparr>diag_status = ''OPTIMAL'', diag_team_scores = [(1, 35), (2, 35)],
            diag_target_score = 35, diag_deviations = [(1, 0), (2, 0)],
            diag_captain_counts = [(1, 1), (2, 1)], diag_num_captains = 2,
            diag_feasibility_warnings = []\<rparr> ! 0) =
      \<bar>snd (diag_team_scores \<lparr>diag_status = ''OPTIMAL'', diag_team_scores = [(1, 35), (2, 35)],
            diag_target_score = 35, diag_deviations = [(1, 0), (2, 0)],
            diag_captain_counts = [(1, 1), (2, 1)], diag_num_captains = 2,
            diag_feasibility_warnings = []\<rparr> ! 0) - diag_target_score \<lparr>diag_status = ''OPTIMAL'', diag_team_scores = [(1, 35), (2, 35)],
            diag_target_score = 35, diag_deviations = [(1, 0), (2, 0)],
            diag_captain_counts = [(1, 1), (2, 1)], diag_num_captains = 2,
            diag_feasibility_warnings = []\<rparr>\<bar>"
    by simp
  then show ?thesis using sound run t bw unfolding mo by simp
qed

text \<open>
  C3 as stated fails: with balance weight 0 the deviations are not in the objective, and
  a valuation with deviation 500 (reported 5.00) for a team whose score equals the target
  satisfies the model and is optimal.
\<close>

theorem deviation_exceeds_absolute_difference:
  "sound_solver (oracle_solver (model_of (roster\<lparr>balance_weight := 0\<rparr>)) OPTIMAL
      (valuation(D 0 := 500))) \<and>
   build_and_solve (oracle_solver (model_of (roster\<lparr>balance_weight := 0\<rparr>)) OPTIMAL
      (valuation(D 0 := 500))) (roster\<lparr>balance_weight := 0\<rparr>) [] =
     (Inr ([with_team P1 1, with_team P2 2, with_team P3 2, with_team P4 1],
           \<lparr>diag_status = ''OPTIMAL'', diag_team_scores = [(1, 35), (2, 35)],
            diag_target_score = 35, diag_deviations = [(1, 5), (2, 0)],
            diag_captain_counts = [(1, 1), (2, 1)], diag_num_captains = 2,
            diag_feasibility_warnings = []\<rparr>),
      [\<lparr>max_time_in_seconds = 30, solver_random_seed = 42, num_search_workers = 8\<rparr>]) \<and>
   (5 :: rat) \<noteq> \<bar>35 - 35\<bar>"
proof -
  let ?a = "roster\<lparr>balance_weight := 0\<rparr>"
  let ?v = "valuation(D 0 := 500)"
  obtain m w where bm: "build_model ?a = Inr (m, w)" and w: "w = []"
    by (simp add: scenario_defs)
  have mo: "model_of ?a = m" by (simp add: model_of_def bm)
  have sat: "sat m ?v" using bm by (auto simp: scenario_defs)
  have obj: "objective m = []" using bm by (auto simp: scenario_defs)
  have sound: "sound_solver (oracle_solver m OPTIMAL ?v)"
    using sat by (rule sound_oracle_solver) (simp add: objective_value_def obj)
  have ex: "extract_solution ?a OPTIMAL ?v [] =
     Inr ([with_team P1 1, with_team P2 2, with_team P3 2, with_team P4 1],
           \<lparr>diag_status = ''OPTIMAL'', diag_team_scores = [(1, 35), (2, 35)],
            diag_target_score = 35, diag_deviations = [(1, 5), (2, 0)],
            diag_captain_counts = [(1, 1), (2, 1)], diag_num_captains = 2,
            diag_feasibility_warnings = []\<rparr>)"
    by (simp add: scenario_defs run_defs)
  have "build_and_solve (oracle_solver m OPTIMAL ?v) ?a [] =
     (Inr ([with_team P1 1, with_team P2 2, with_team P3 2, with_team P4 1],
           \<lparr>diag_status = ''OPTIMAL'', diag_team_scores = [(1, 35), (2, 35)],
            diag_target_score = 35, diag_deviations = [(1, 5), (2, 0)],
            diag_captain_counts = [(1, 1), (2, 1)], diag_num_captains = 2,
            diag_feasibility_warnings = []\<rparr>),
      [\<lparr>max_time_in_seconds = 30, solver_random_seed = 42, num_search_workers = 8\<rparr>])"
    by (simp add: build_and_solve_def bm w oracle_solver_def ex) (simp add: solver_params_def roster_def)
  then show ?thesis using sound unfolding mo by simp
qed

section \<open>Hard captain policy\<close>
















end
